theory Spec2Isabelle
  imports Main
begin

section \<open>Values, records and errors\<close>

text \<open>
  An attachment is a Python dict with string keys. It is modelled as a map from key to
  value, so that a missing key is \<open>None\<close> and dict equality (used by \<open>list.remove\<close>) is
  equality of maps. The values are the ones the data model stores: \<open>None\<close>, booleans,
  integers, strings (payloads, content types, fingerprints) and the list of member dicts
  kept under \<open>files\<close>. Members and records are values: two records of a collection are
  taken to be distinct objects. Where the code tests membership in a set of hashes, the
  model uses Python's equality on values (\<open>py_eq\<close> below).
\<close>

datatype pyval =
    PNone
  | PBool bool
  | PInt int
  | PStr string
  | PList "(string \<Rightarrow> pyval option) list"

type_synonym pydict = "string \<Rightarrow> pyval option"

datatype error =
    KeyError
  | TypeError
  | AttributeError
  | ValueError
  | UnboundLocalError
  | OSError
  | HashError
  | ContentTypeError
  | TempIOError
  | PatoolError
  | BinasciiError
  | IOError
  | ImproperlyConfigured
  | VirusTotalApiKeyInvalid

text \<open>Python's truth value of an object, as \<open>if x\<close> and \<open>not x\<close> read it.\<close>

fun truthy :: "pyval \<Rightarrow> bool" where
  "truthy PNone = False"
| "truthy (PBool b) = b"
| "truthy (PInt n) = (n \<noteq> 0)"
| "truthy (PStr s) = (s \<noteq> [])"
| "truthy (PList xs) = (xs \<noteq> [])"

text \<open>\<open>d.get(k, default)\<close>.\<close>

definition dict_get :: "pydict \<Rightarrow> string \<Rightarrow> pyval \<Rightarrow> pyval" where
  "dict_get d k dflt = (case d k of None \<Rightarrow> dflt | Some v \<Rightarrow> v)"

text \<open>Lists and dicts are unhashable: adding one to a set raises \<open>TypeError\<close>.\<close>

fun hashable :: "pyval \<Rightarrow> bool" where
  "hashable (PList xs) = False"
| "hashable v = True"

text \<open>\<open>str.lower()\<close> on a byte string: the letters A to Z are mapped, every other byte kept.\<close>

definition lower_char :: "char \<Rightarrow> char" where
  "lower_char c =
     (if (65::nat) \<le> of_char c \<and> (of_char c :: nat) \<le> 90
      then char_of ((of_char c :: nat) + 32) else c)"

definition lower :: "string \<Rightarrow> string" where
  "lower s = map lower_char s"

section \<open>Attachments.filter\<close>

text \<open>
  Membership in a Python set goes by \<open>==\<close> (and \<open>hash\<close>), not by identity of
  representation: \<open>True == 1\<close> and \<open>False == 0\<close>, so \<open>1 in {True}\<close> holds. On the values
  that can be hashed, \<open>py_eq\<close> is that equality; \<open>py_in\<close> is \<open>x in s\<close> and \<open>py_add\<close> is
  \<open>s.add(x)\<close>, which leaves a set that already holds an equal element as it is.
\<close>

fun py_eq :: "pyval \<Rightarrow> pyval \<Rightarrow> bool" where
  "py_eq (PBool b) (PInt n) = (n = (if b then 1 else 0))"
| "py_eq (PInt n) (PBool b) = (n = (if b then 1 else 0))"
| "py_eq x y = (x = y)"

definition py_in :: "pyval \<Rightarrow> pyval set \<Rightarrow> bool" where
  "py_in x s = (\<exists>y\<in>s. py_eq x y)"

definition py_add :: "pyval \<Rightarrow> pyval set \<Rightarrow> pyval set" where
  "py_add x s = (if py_in x s then s else insert x s)"

text \<open>
  The loop of \<open>filter\<close>: \<open>analyzed\<close> collects \<open>i[hash_type]\<close> of every record visited;
  a record whose hash is in \<open>check_list\<close> loses its payload and gets \<open>is_filtered = True\<close>,
  every other record gets \<open>is_filtered = False\<close>. \<open>i[hash_type]\<close> raises \<open>KeyError\<close> on a
  missing key, \<open>analyzed.add\<close> raises \<open>TypeError\<close> on an unhashable value.
\<close>

definition filter_body :: "pyval set \<Rightarrow> pyval \<Rightarrow> pydict \<Rightarrow> pydict" where
  "filter_body check_list h i =
     (if py_in h check_list
      then (i(''payload'' := None))(''is_filtered'' \<mapsto> PBool True)
      else i(''is_filtered'' \<mapsto> PBool False))"

fun filter_loop ::
  "pyval set \<Rightarrow> string \<Rightarrow> pyval set \<Rightarrow> pydict list \<Rightarrow> error + (pydict list \<times> pyval set)" where
  "filter_loop check_list hash_type analyzed [] = Inr ([], analyzed)"
| "filter_loop check_list hash_type analyzed (i # rest) =
     (case i hash_type of
        None \<Rightarrow> Inl KeyError
      | Some h \<Rightarrow>
          if \<not> hashable h then Inl TypeError
          else
            (case filter_loop check_list hash_type (py_add h analyzed) rest of
               Inl e \<Rightarrow> Inl e
             | Inr (out, an) \<Rightarrow> Inr (filter_body check_list h i # out, an)))"

definition filter_att ::
  "pyval set \<Rightarrow> string \<Rightarrow> pydict list \<Rightarrow> error + (pydict list \<times> pyval set)" where
  "filter_att check_list hash_type self = filter_loop check_list hash_type {} self"

section \<open>Attachments.pophash\<close>

definition len_hashes :: "(nat \<times> string) list" where
  "len_hashes = [(32, ''md5''), (40, ''sha1''), (64, ''sha256''), (128, ''sha512'')]"

text \<open>
  The loop of \<open>pophash\<close>. The lookup \<open>len_hashes[len(attach_hash)]\<close> is made inside the
  loop body, once per record; \<open>to_remove\<close> collects the records to remove afterwards.
\<close>

fun pophash_loop :: "string \<Rightarrow> pydict list \<Rightarrow> pydict list \<Rightarrow> error + pydict list" where
  "pophash_loop attach_hash to_remove [] = Inr to_remove"
| "pophash_loop attach_hash to_remove (i # rest) =
     (case map_of len_hashes (length attach_hash) of
        None \<Rightarrow> Inl HashError
      | Some key \<Rightarrow>
          pophash_loop attach_hash
            (if key \<in> dom i \<and> i key = Some (PStr attach_hash)
             then to_remove @ [i] else to_remove) rest)"

text \<open>\<open>self.remove(i)\<close> for each collected record: the first equal element goes.\<close>

definition pophash :: "string \<Rightarrow> pydict list \<Rightarrow> error + pydict list" where
  "pophash attach_hash self =
     (case pophash_loop attach_hash [] self of
        Inl e \<Rightarrow> Inl e
      | Inr to_remove \<Rightarrow> Inr (fold remove1 to_remove self))"

section \<open>Attachments.popcontenttype\<close>

text \<open>
  \<open>i["Content-Type"].lower()\<close>: \<open>KeyError\<close> when the key is missing, \<open>AttributeError\<close>
  when the value is not a string.
\<close>

definition content_type_lower :: "pydict \<Rightarrow> error + string" where
  "content_type_lower d =
     (case d ''Content-Type'' of
        None \<Rightarrow> Inl KeyError
      | Some (PStr s) \<Rightarrow> Inr (lower s)
      | Some _ \<Rightarrow> Inl AttributeError)"

text \<open>The guard \<open>i.get("is_filtered", False)\<close> of the outer loop.\<close>

definition is_filtered :: "pydict \<Rightarrow> bool" where
  "is_filtered i = truthy (dict_get i ''is_filtered'' (PBool False))"

text \<open>
  The elements that \<open>for j in i.get("files", [])\<close> visits. A missing key gives the empty
  default and the empty string has no elements; every other value that is not a list makes
  the loop raise \<open>TypeError\<close> (not iterable, or a character indexed by a string).
\<close>

definition files_iter :: "pydict \<Rightarrow> error + pydict list" where
  "files_iter i =
     (case i ''files'' of
        None \<Rightarrow> Inr []
      | Some (PList fs) \<Rightarrow> Inr fs
      | Some (PStr s) \<Rightarrow> if s = [] then Inr [] else Inl TypeError
      | Some _ \<Rightarrow> Inl TypeError)"

fun inner_loop :: "string \<Rightarrow> pydict list \<Rightarrow> pydict list \<Rightarrow> error + pydict list" where
  "inner_loop content_type inner_remove [] = Inr inner_remove"
| "inner_loop content_type inner_remove (j # rest) =
     (case content_type_lower j of
        Inl e \<Rightarrow> Inl e
      | Inr c \<Rightarrow>
          inner_loop content_type
            (if c = content_type then inner_remove @ [j] else inner_remove) rest)"

text \<open>
  The body of the \<open>try\<close>: \<open>None\<close> stands for \<open>remove.append(i); continue\<close>, \<open>Some\<close> carries
  \<open>inner_remove\<close> to the \<open>else\<close> clause.
\<close>

definition popcontenttype_try :: "string \<Rightarrow> pydict \<Rightarrow> error + pydict list option" where
  "popcontenttype_try content_type i =
     (case content_type_lower i of
        Inl e \<Rightarrow> Inl e
      | Inr c \<Rightarrow>
          if c = content_type then Inr None
          else
            (case files_iter i of
               Inl e \<Rightarrow> Inl e
             | Inr fs \<Rightarrow>
                 (case inner_loop content_type [] fs of
                    Inl e \<Rightarrow> Inl e
                  | Inr inner_remove \<Rightarrow> Inr (Some inner_remove))))"

text \<open>\<open>except KeyError: raise ContentTypeError(...)\<close>; any other error passes through.\<close>

definition except_KeyError :: "error + 'a \<Rightarrow> error + 'a" where
  "except_KeyError r = (case r of Inl KeyError \<Rightarrow> Inl ContentTypeError | _ \<Rightarrow> r)"

text \<open>The \<open>else\<close> clause: \<open>i["files"].remove(j)\<close> for each collected member.\<close>

definition remove_inner :: "pydict \<Rightarrow> pydict list \<Rightarrow> pydict" where
  "remove_inner i inner_remove =
     fold (\<lambda>j d. case d ''files'' of
                    Some (PList fs) \<Rightarrow> d(''files'' \<mapsto> PList (remove1 j fs))
                  | _ \<Rightarrow> d)
          inner_remove i"

fun popcontenttype_loop ::
  "string \<Rightarrow> pydict list \<Rightarrow> pydict list \<Rightarrow> error + (pydict list \<times> pydict list)" where
  "popcontenttype_loop content_type remove [] = Inr ([], remove)"
| "popcontenttype_loop content_type remove (i # rest) =
     (if \<not> is_filtered i then
        (case except_KeyError (popcontenttype_try content_type i) of
           Inl e \<Rightarrow> Inl e
         | Inr None \<Rightarrow>
             (case popcontenttype_loop content_type (remove @ [i]) rest of
                Inl e \<Rightarrow> Inl e
              | Inr (out, rm) \<Rightarrow> Inr (i # out, rm))
         | Inr (Some inner_remove) \<Rightarrow>
             (case popcontenttype_loop content_type remove rest of
                Inl e \<Rightarrow> Inl e
              | Inr (out, rm) \<Rightarrow> Inr (remove_inner i inner_remove # out, rm)))
      else
        (case popcontenttype_loop content_type remove rest of
           Inl e \<Rightarrow> Inl e
         | Inr (out, rm) \<Rightarrow> Inr (i # out, rm)))"

text \<open>
  \<open>popcontenttype\<close>: the scan over the collection (which prunes the member lists of the
  records it keeps), then \<open>self.remove(i)\<close> for every record collected in \<open>remove\<close>.
\<close>

definition popcontenttype :: "string \<Rightarrow> pydict list \<Rightarrow> error + pydict list" where
  "popcontenttype content_type self =
     (case popcontenttype_loop (lower content_type) [] self of
        Inl e \<Rightarrow> Inl e
      | Inr (out, rm) \<Rightarrow> Inr (fold remove1 rm out))"

subsection \<open>Vocabulary for stating what popcontenttype does\<close>

text \<open>
  The following are not functions of the program: they name, for the theorems below, the
  records \<open>popcontenttype\<close> collects, the records it finds without a content type, and a
  record after its matching members are gone.
\<close>

text \<open>An examined record whose content type is the target (already lower-cased).\<close>

definition matches :: "string \<Rightarrow> pydict \<Rightarrow> bool" where
  "matches ct i = (content_type_lower i = Inr ct)"

text \<open>
  Record \<open>i\<close> with the members that match \<open>ct\<close> taken out of its \<open>files\<close> list; a
  filtered record is left as it is.
\<close>

definition prune_members :: "string \<Rightarrow> pydict \<Rightarrow> pydict" where
  "prune_members ct i =
     (if is_filtered i then i
      else case i ''files'' of
             Some (PList fs) \<Rightarrow> i(''files'' \<mapsto> PList (filter (\<lambda>j. \<not> matches ct j) fs))
           | _ \<Rightarrow> i)"

text \<open>
  A record typed as the data model has it: a \<open>Content-Type\<close> that is present is a string,
  and \<open>files\<close>, when present, is a list of members of which the same holds.
\<close>

definition content_type_typed :: "pydict \<Rightarrow> bool" where
  "content_type_typed i =
     (case i ''Content-Type'' of None \<Rightarrow> True | Some (PStr s) \<Rightarrow> True | Some _ \<Rightarrow> False)"

definition well_typed :: "pydict \<Rightarrow> bool" where
  "well_typed i =
     (content_type_typed i \<and>
      (case i ''files'' of
         None \<Rightarrow> True
       | Some (PList fs) \<Rightarrow> list_all content_type_typed fs
       | Some _ \<Rightarrow> False))"

text \<open>
  The record has no \<open>Content-Type\<close>, or its content type is not the target and one of its
  members has none.
\<close>

definition lacks_content_type :: "string \<Rightarrow> pydict \<Rightarrow> bool" where
  "lacks_content_type ct i =
     (i ''Content-Type'' = None \<or>
      (\<not> matches ct i \<and>
       (case i ''files'' of
          Some (PList fs) \<Rightarrow> list_ex (\<lambda>j. j ''Content-Type'' = None) fs
        | _ \<Rightarrow> False)))"

section \<open>utils.extension\<close>

text \<open>
  \<open>os.path.splitext\<close> is the standard library's (\<open>posixpath\<close>, separator \<open>/\<close>, extension
  separator \<open>.\<close>): the extension starts at the last dot of the last path component, and
  dots that lead the component do not count. It returns a pair, modelled as a list of
  two strings so that \<open>len(ext)\<close> and \<open>ext[-1]\<close> can be read off.
\<close>

text \<open>\<open>str.rfind\<close>: the last index of the character, or \<open>-1\<close>.\<close>

definition rfind :: "string \<Rightarrow> char \<Rightarrow> int" where
  "rfind p c =
     (if c \<in> set p
      then int (length p) - 1 - int (length (takeWhile (\<lambda>x. x \<noteq> c) (rev p)))
      else - 1)"

text \<open>The \<open>while filenameIndex < dotIndex\<close> loop that skips the leading dots.\<close>

function splitext_loop :: "string \<Rightarrow> nat \<Rightarrow> nat \<Rightarrow> string list" where
  "splitext_loop p dotIndex filenameIndex =
     (if filenameIndex < dotIndex
      then (if take 1 (drop filenameIndex p) \<noteq> ''.''
            then [take dotIndex p, drop dotIndex p]
            else splitext_loop p dotIndex (filenameIndex + 1))
      else [p, take 0 p])"
  by pat_completeness auto
termination
  by (relation "measure (\<lambda>(p, dotIndex, filenameIndex). dotIndex - filenameIndex)") auto

declare splitext_loop.simps [simp del]

definition splitext :: "string \<Rightarrow> string list" where
  "splitext p =
     (let sepIndex = rfind p (CHR ''/'');
          dotIndex = rfind p (CHR ''.'')
      in if dotIndex > sepIndex
         then splitext_loop p (nat dotIndex) (nat (sepIndex + 1))
         else [p, take 0 p])"

text \<open>
  \<open>extension\<close>: \<open>ext[-1].lower() if len(ext) > 1 else None\<close>, with \<open>ext\<close> the result of
  \<open>splitext\<close>.
\<close>

definition extension :: "string \<Rightarrow> string option" where
  "extension filename =
     (let ext = splitext filename
      in if length ext > 1 then Some (lower (last ext)) else None)"

section \<open>The scratch storage and the collaborators\<close>

text \<open>
  The file system is the set of scratch objects that exist: the files made by
  \<open>tempfile.mkstemp\<close> and the directories made by \<open>tempfile.mkdtemp\<close>, a directory standing
  for everything extracted under it; \<open>protected\<close> holds the objects that cannot be
  removed (\<open>shutil.rmtree\<close> or \<open>os.remove\<close> on them raises \<open>OSError\<close>). The memo table
  of \<open>utils.check_archive\<close> (\<open>lru_cache\<close>) and the calls made to the enrichment services
  are part of the state too.
\<close>

datatype check_result = OnlyFlag bool | FlagAndPath bool string

datatype call = TikaCall string | VirusTotalCall string

record world =
  scratch :: "string set"
  protected :: "string set"
  archive_cache :: "string \<times> bool \<Rightarrow> check_result option"
  calls :: "call list"

text \<open>
  What the operating system and the archive tool answer: \<open>mkstemp\<close> and \<open>mkdtemp\<close> give a
  new path or fail (\<open>None\<close>), \<open>write_ok\<close> says whether the sample can be opened and written,
  \<open>test_archive_ok\<close> whether \<open>patoolib.test_archive\<close> accepts the data, and \<open>extract_result\<close>
  is the error \<open>patoolib.extract_archive\<close> raises or the files it extracts, in the order
  \<open>os.walk\<close> lists them: the base name of each, and its content when it can be opened
  and read (\<open>None\<close> when it cannot).
\<close>

record env =
  mkstemp :: "string set \<Rightarrow> string option"
  mkdtemp :: "string set \<Rightarrow> string option"
  write_ok :: "string \<Rightarrow> bool"
  test_archive_ok :: "string \<Rightarrow> bool"
  extract_result :: "string \<Rightarrow> error + (string \<times> string option) list"

section \<open>utils.check_archive and SampleParser.is_archive\<close>

text \<open>
  The body of \<open>check_archive\<close>. When \<open>mkstemp\<close> raises, \<open>temp\<close> has not been assigned, and the
  handler's \<open>"...".format(temp)\<close> raises \<open>UnboundLocalError\<close> before \<open>TempIOError\<close> is built.
  When the write fails the handler raises \<open>TempIOError\<close>; the file \<open>mkstemp\<close> made stays.
  Whatever \<open>test_archive\<close> raises is caught, and the \<open>finally\<close> clause returns.
\<close>

definition check_archive ::
  "env \<Rightarrow> string \<Rightarrow> bool \<Rightarrow> string set \<Rightarrow> (error + check_result) \<times> string set" where
  "check_archive e data write_sample files =
     (case mkstemp e files of
        None \<Rightarrow> (Inl UnboundLocalError, files)
      | Some temp \<Rightarrow>
          if \<not> write_ok e data then (Inl TempIOError, insert temp files)
          else
            (let is_archive = test_archive_ok e data
             in if write_sample
                then (Inr (FlagAndPath is_archive temp), insert temp files)
                else (Inr (OnlyFlag is_archive), insert temp files - {temp})))"

text \<open>\<open>SampleParser.is_archive\<close> has the same body, as a method.\<close>

definition is_archive ::
  "env \<Rightarrow> string \<Rightarrow> bool \<Rightarrow> string set \<Rightarrow> (error + check_result) \<times> string set" where
  "is_archive e data write_sample files =
     (case mkstemp e files of
        None \<Rightarrow> (Inl UnboundLocalError, files)
      | Some temp \<Rightarrow>
          if \<not> write_ok e data then (Inl TempIOError, insert temp files)
          else
            (let is_archive = test_archive_ok e data
             in if write_sample
                then (Inr (FlagAndPath is_archive temp), insert temp files)
                else (Inr (OnlyFlag is_archive), insert temp files - {temp})))"

text \<open>
  \<open>check_archive\<close> behind its \<open>lru_cache\<close>: a result stored for the same arguments is
  returned without touching the file system; a raised error is not stored.
\<close>

definition check_archive_cached ::
  "env \<Rightarrow> string \<Rightarrow> bool \<Rightarrow> world \<Rightarrow> (error + check_result) \<times> world" where
  "check_archive_cached e data write_sample w =
     (case archive_cache w (data, write_sample) of
        Some r \<Rightarrow> (Inr r, w)
      | None \<Rightarrow>
          (case check_archive e data write_sample (scratch w) of
             (Inl err, files) \<Rightarrow> (Inl err, w\<lparr>scratch := files\<rparr>)
           | (Inr r, files) \<Rightarrow>
               (Inr r, w\<lparr>scratch := files,
                          archive_cache := (archive_cache w)((data, write_sample) \<mapsto> r)\<rparr>)))"

section \<open>AbstractUrlsHandlerBolt._load_whitelist\<close>

text \<open>
  A configured whitelist: the path of its domain file and an optional expiry string.
  \<open>load_config\<close> (of \<open>modules/utils.py\<close>) and \<open>datetime.strptime\<close> are parameters: what a
  path loads to (a list of domains, some other value, or an error) and the instant an
  expiry string denotes (\<open>None\<close> when it does not parse: \<open>ValueError\<close>). Instants are
  integers. \<open>utcnow n\<close> is the clock reading taken while the \<open>n\<close>-th entry is examined.
\<close>

record whitelist_entry =
  path :: string
  expiry :: "string option"

datatype config = ConfigList "string list" | ConfigOther

text \<open>
  The flag \<open>reload_\<close> of one entry: true when \<open>v.get('expiry')\<close> is missing or empty, and
  otherwise whether the parsed expiry is later than \<open>now\<close>.
\<close>

definition reload_flag :: "(string \<Rightarrow> int option) \<Rightarrow> int \<Rightarrow> whitelist_entry \<Rightarrow> error + bool" where
  "reload_flag strptime now v =
     (case expiry v of
        None \<Rightarrow> Inr True
      | Some ex \<Rightarrow>
          if ex = [] then Inr True
          else (case strptime ex of
                  None \<Rightarrow> Inl ValueError
                | Some t \<Rightarrow> Inr (t > now)))"

text \<open>
  The loop over \<open>self.conf['whitelists'].iteritems()\<close>, with \<open>self._whitelist\<close> as the
  state: on an error the whitelist built so far stays.
\<close>

fun load_whitelist_loop ::
  "(string \<Rightarrow> error + config) \<Rightarrow> (string \<Rightarrow> int option) \<Rightarrow> (nat \<Rightarrow> int) \<Rightarrow> nat \<Rightarrow>
   string set \<Rightarrow> (string \<times> whitelist_entry) list \<Rightarrow> (error + unit) \<times> string set" where
  "load_whitelist_loop load_config strptime utcnow n whitelist [] = (Inr (), whitelist)"
| "load_whitelist_loop load_config strptime utcnow n whitelist ((k, v) # rest) =
     (case reload_flag strptime (utcnow n) v of
        Inl e \<Rightarrow> (Inl e, whitelist)
      | Inr reload \<Rightarrow>
          if reload then
            (case load_config (path v) of
               Inl e \<Rightarrow> (Inl e, whitelist)
             | Inr (ConfigList domains) \<Rightarrow>
                 load_whitelist_loop load_config strptime utcnow (Suc n)
                   (whitelist \<union> lower ` set domains) rest
             | Inr ConfigOther \<Rightarrow> (Inl ImproperlyConfigured, whitelist))
          else load_whitelist_loop load_config strptime utcnow (Suc n) whitelist rest)"

text \<open>
  \<open>_load_whitelist\<close>: the whitelist is first replaced by the empty set, whatever it held
  (\<open>old_whitelist\<close>), and then filled by the loop.
\<close>

definition load_whitelist ::
  "(string \<Rightarrow> error + config) \<Rightarrow> (string \<Rightarrow> int option) \<Rightarrow> (nat \<Rightarrow> int) \<Rightarrow>
   (string \<times> whitelist_entry) list \<Rightarrow> string set \<Rightarrow> (error + unit) \<times> string set" where
  "load_whitelist load_config strptime utcnow whitelists old_whitelist =
     load_whitelist_loop load_config strptime utcnow 0 {} whitelists"

section \<open>Building a sample record\<close>

text \<open>
  The collaborators: the base64 codec (\<open>b64decode\<close> is \<open>None\<close> on text that is not
  base64), the content sniffer \<open>magic\<close>, the five fingerprints, and the answers of the
  document extractor and of the reputation service, each of which either returns a value
  or raises.
\<close>

record tools =
  b64encode :: "string \<Rightarrow> string"
  b64decode :: "string \<Rightarrow> string option"
  magic :: "string \<Rightarrow> string"
  fingerprints :: "string \<Rightarrow> string \<times> string \<times> string \<times> string \<times> string"
  tika_extract :: "string \<Rightarrow> error + pyval"
  vt_report :: "string \<Rightarrow> error + pyval"

text \<open>
  \<open>patoolib.extract_archive(sample_path, outdir=temp_dir)\<close>: the tool reads the scratch
  file, so it fails when the file is not there. What it lists are the extracted files.
\<close>

definition extract_archive ::
  "env \<Rightarrow> string \<Rightarrow> string \<Rightarrow> string set \<Rightarrow> error + (string \<times> string option) list" where
  "extract_archive e data sample_path files =
     (if sample_path \<in> files then extract_result e data else Inl PatoolError)"

text \<open>
  The loop over \<open>os.walk(temp_dir)\<close>: every listed file is opened and read, in order. A
  file that cannot be opened or read (content \<open>None\<close>) raises \<open>IOError\<close>, which ends the
  loop and the call.
\<close>

fun read_members :: "(string \<times> string option) list \<Rightarrow> error + (string \<times> string) list" where
  "read_members [] = Inr []"
| "read_members ((name, None) # rest) = Inl IOError"
| "read_members ((name, Some content) # rest) =
     (case read_members rest of
        Inl err \<Rightarrow> Inl err
      | Inr members \<Rightarrow> Inr ((name, content) # members))"

text \<open>
  \<open>shutil.rmtree(path)\<close> and \<open>os.remove(path)\<close>: the object goes, unless it is missing or
  cannot be removed; then \<open>OSError\<close> is raised and the storage stays as it is.
  \<open>remove_if_exists\<close> is the removal under \<open>if os.path.exists(path)\<close>, \<open>remove_quietly\<close> the
  removal inside \<open>try ... except OSError: pass\<close>.
\<close>

definition remove_path :: "string \<Rightarrow> world \<Rightarrow> error + world" where
  "remove_path p w =
     (if p \<notin> scratch w \<or> p \<in> protected w then Inl OSError
      else Inr (w\<lparr>scratch := scratch w - {p}\<rparr>))"

definition remove_if_exists :: "string \<Rightarrow> world \<Rightarrow> error + world" where
  "remove_if_exists p w = (if p \<in> scratch w then remove_path p w else Inr w)"

definition remove_quietly :: "string \<Rightarrow> world \<Rightarrow> world" where
  "remove_quietly p w = (case remove_path p w of Inl err \<Rightarrow> w | Inr w' \<Rightarrow> w')"

subsection \<open>SampleParser._create_sample_result\<close>

text \<open>The dict appended to \<open>files\<close> for one extracted file.\<close>

definition sample_member :: "tools \<Rightarrow> string \<times> string \<Rightarrow> pydict" where
  "sample_member t m =
     [''filename'' \<mapsto> PStr (fst m),
      ''payload'' \<mapsto> PStr (b64encode t (snd m)),
      ''size'' \<mapsto> PInt (int (length (snd m)))]"

text \<open>
  \<open>_create_sample_result\<close>. The scratch file is written by \<open>is_archive\<close>; for an archive
  a scratch directory is made, the archive extracted into it and the extracted files
  read. The two removals at the end are plain statements: they are reached only when
  nothing before them raised, and a removal that fails raises.
\<close>

definition create_sample_result ::
  "env \<Rightarrow> tools \<Rightarrow> string \<Rightarrow> string \<Rightarrow> pyval \<Rightarrow> pyval \<Rightarrow> world \<Rightarrow> (error + pydict) \<times> world" where
  "create_sample_result e t data filename mail_content_type transfer_encoding w =
     (case is_archive e data True (scratch w) of
        (Inl err, files) \<Rightarrow> (Inl err, w\<lparr>scratch := files\<rparr>)
      | (Inr (OnlyFlag b), files) \<Rightarrow> (Inl TypeError, w\<lparr>scratch := files\<rparr>)
      | (Inr (FlagAndPath is_arch sample_path), files) \<Rightarrow>
          (let w1 = w\<lparr>scratch := files\<rparr>;
               result =
                 [''filename'' \<mapsto> PStr filename,
                  ''payload'' \<mapsto> PStr (b64encode t data),
                  ''mail_content_type'' \<mapsto> mail_content_type,
                  ''content_transfer_encoding'' \<mapsto> transfer_encoding,
                  ''size'' \<mapsto> PInt (int (length data)),
                  ''is_archive'' \<mapsto> PBool is_arch]
           in if is_arch then
                (case mkdtemp e files of
                   None \<Rightarrow> (Inl OSError, w1)
                 | Some temp_dir \<Rightarrow>
                     (let w2 = w1\<lparr>scratch := insert temp_dir files\<rparr>
                      in case extract_archive e data sample_path (scratch w2) of
                           Inl err \<Rightarrow> (Inl err, w2)
                         | Inr listed \<Rightarrow>
                             (case read_members listed of
                                Inl err \<Rightarrow> (Inl err, w2)
                              | Inr members \<Rightarrow>
                                  (case remove_if_exists temp_dir w2 of
                                     Inl err \<Rightarrow> (Inl err, w2)
                                   | Inr w3 \<Rightarrow>
                                       (case remove_if_exists sample_path w3 of
                                          Inl err \<Rightarrow> (Inl err, w3)
                                        | Inr w4 \<Rightarrow>
                                            (Inr (result(''files'' \<mapsto>
                                                    PList (map (sample_member t) members))),
                                             w4))))))
              else
                (case remove_if_exists sample_path w1 of
                   Inl err \<Rightarrow> (Inl err, w1)
                 | Inr w2 \<Rightarrow> (Inr result, w2))))"

subsection \<open>Attachments._addmetadata\<close>

text \<open>
  \<open>_metadata\<close>: the decoded payload, its size and the extension of the file name. The
  payload and the file name are strings; any other value is reported as \<open>TypeError\<close>.
\<close>

definition metadata :: "tools \<Rightarrow> pydict \<Rightarrow> error + (string \<times> int \<times> string option)" where
  "metadata t raw_dict =
     (case raw_dict ''content_transfer_encoding'' of
        None \<Rightarrow> Inl KeyError
      | Some cte \<Rightarrow>
          (case raw_dict ''payload'' of
             None \<Rightarrow> Inl KeyError
           | Some (PStr p) \<Rightarrow>
               (case (if cte = PStr ''base64'' then b64decode t p else Some p) of
                  None \<Rightarrow> Inl BinasciiError
                | Some payload \<Rightarrow>
                    (case raw_dict ''filename'' of
                       None \<Rightarrow> Inl KeyError
                     | Some (PStr filename) \<Rightarrow>
                         Inr (payload, int (length payload), extension filename)
                     | Some _ \<Rightarrow> Inl TypeError))
           | Some _ \<Rightarrow> Inl TypeError))"

text \<open>The dict \<open>t\<close> built for one extracted file.\<close>

definition archived_file :: "tools \<Rightarrow> string \<times> string \<Rightarrow> pydict" where
  "archived_file t m =
     (case fingerprints t (snd m) of
        (md5, sha1, sha256, sha512, ssdeep) \<Rightarrow>
          [''filename'' \<mapsto> PStr (fst m),
           ''extension'' \<mapsto> (case extension (fst m) of None \<Rightarrow> PNone | Some x \<Rightarrow> PStr x),
           ''size'' \<mapsto> PInt (int (length (snd m))),
           ''Content-Type'' \<mapsto> PStr (magic t (snd m)),
           ''payload'' \<mapsto> PStr (b64encode t (snd m)),
           ''md5'' \<mapsto> PStr md5, ''sha1'' \<mapsto> PStr sha1, ''sha256'' \<mapsto> PStr sha256,
           ''sha512'' \<mapsto> PStr sha512, ''ssdeep'' \<mapsto> PStr ssdeep])"

text \<open>
  The body of the loop of \<open>_addmetadata\<close> for one record. Here \<open>shutil.rmtree\<close> and
  \<open>os.remove\<close> are wrapped in \<open>try ... except OSError: pass\<close>: a removal that fails is
  passed over and the call goes on. They are reached only when nothing before them
  raised.
\<close>

definition addmetadata_item :: "env \<Rightarrow> tools \<Rightarrow> pydict \<Rightarrow> world \<Rightarrow> (error + pydict) \<times> world" where
  "addmetadata_item e t i w =
     (if \<not> is_filtered i then
        (case metadata t i of
           Inl err \<Rightarrow> (Inl err, w)
         | Inr (payload, sz, ext) \<Rightarrow>
             (case check_archive_cached e payload True w of
                (Inl err, w1) \<Rightarrow> (Inl err, w1)
              | (Inr (OnlyFlag b), w1) \<Rightarrow> (Inl TypeError, w1)
              | (Inr (FlagAndPath flag f), w1) \<Rightarrow>
                  (let i1 = i(''extension'' \<mapsto> (case ext of None \<Rightarrow> PNone | Some x \<Rightarrow> PStr x),
                              ''size'' \<mapsto> PInt sz,
                              ''Content-Type'' \<mapsto> PStr (magic t payload),
                              ''is_archive'' \<mapsto> PBool flag)
                   in if flag then
                        (case mkdtemp e (scratch w1) of
                           None \<Rightarrow> (Inl OSError, w1)
                         | Some temp_dir \<Rightarrow>
                             (let w2 = w1\<lparr>scratch := insert temp_dir (scratch w1)\<rparr>
                              in case extract_archive e payload f (scratch w2) of
                                   Inl err \<Rightarrow> (Inl err, w2)
                                 | Inr listed \<Rightarrow>
                                     (case read_members listed of
                                        Inl err \<Rightarrow> (Inl err, w2)
                                      | Inr members \<Rightarrow>
                                          (Inr (i1(''files'' \<mapsto>
                                                  PList (map (archived_file t) members))),
                                           remove_quietly f (remove_quietly temp_dir w2)))))
                      else (Inr i1, remove_quietly f w1))))
      else (Inr i, w))"

fun addmetadata :: "env \<Rightarrow> tools \<Rightarrow> pydict list \<Rightarrow> world \<Rightarrow> (error + pydict list) \<times> world" where
  "addmetadata e t [] w = (Inr [], w)"
| "addmetadata e t (i # rest) w =
     (case addmetadata_item e t i w of
        (Inl err, w1) \<Rightarrow> (Inl err, w1)
      | (Inr i1, w1) \<Rightarrow>
          (case addmetadata e t rest w1 of
             (Inl err, w2) \<Rightarrow> (Inl err, w2)
           | (Inr out, w2) \<Rightarrow> (Inr (i1 # out), w2)))"

subsection \<open>SampleParser.parse_sample\<close>


text \<open>\<open>d['payload'].decode('base64')\<close>.\<close>

definition decode_payload :: "tools \<Rightarrow> pydict \<Rightarrow> error + string" where
  "decode_payload t d =
     (case d ''payload'' of
        None \<Rightarrow> Inl KeyError
      | Some (PStr s) \<Rightarrow> (case b64decode t s of None \<Rightarrow> Inl BinasciiError | Some x \<Rightarrow> Inr x)
      | Some _ \<Rightarrow> Inl AttributeError)"

text \<open>A loop that updates every element of a list and stops at the first error.\<close>

fun for_each :: "('a \<Rightarrow> error + 'b) \<Rightarrow> 'a list \<Rightarrow> error + 'b list" where
  "for_each f [] = Inr []"
| "for_each f (x # xs) =
     (case f x of
        Inl e \<Rightarrow> Inl e
      | Inr y \<Rightarrow> (case for_each f xs of Inl e \<Rightarrow> Inl e | Inr ys \<Rightarrow> Inr (y # ys)))"









text \<open>\<open>_add_fingerprints\<close>.\<close>

definition set_fingerprints :: "tools \<Rightarrow> pydict \<Rightarrow> error + pydict" where
  "set_fingerprints t d =
     (case decode_payload t d of
        Inl e \<Rightarrow> Inl e
      | Inr x \<Rightarrow>
          (case fingerprints t x of
             (md5, sha1, sha256, sha512, ssdeep) \<Rightarrow>
               Inr (d(''md5'' \<mapsto> PStr md5, ''sha1'' \<mapsto> PStr sha1, ''sha256'' \<mapsto> PStr sha256,
                      ''sha512'' \<mapsto> PStr sha512, ''ssdeep'' \<mapsto> PStr ssdeep))))"








subsection \<open>Vocabulary for stating what parse_sample keeps\<close>


section \<open>Properties\<close>

subsection \<open>Removing collected elements\<close>

lemma fold_remove1_skip:
  "\<forall>y\<in>set ys. P y \<Longrightarrow> \<not> P x \<Longrightarrow> fold remove1 ys (x # zs) = x # fold remove1 ys zs"
proof (induction ys arbitrary: zs)
  case Nil
  then show ?case by simp
next
  case (Cons y ys)
  from Cons.prems have "y \<noteq> x" by auto
  with Cons show ?case by simp
qed

lemma fold_remove1_filter:
  "fold remove1 (filter P xs) xs = filter (\<lambda>x. \<not> P x) xs"
proof (induction xs)
  case Nil
  then show ?case by simp
next
  case (Cons x xs)
  show ?case
  proof (cases "P x")
    case True
    with Cons show ?thesis by simp
  next
    case False
    have "fold remove1 (filter P xs) (x # xs) = x # fold remove1 (filter P xs) xs"
      by (rule fold_remove1_skip [where P = P]) (use False in auto)
    with False Cons show ?thesis by simp
  qed
qed

subsection \<open>filter\<close>

text \<open>A string equals only itself, so for strings \<open>py_in\<close> is plain membership.\<close>

lemma py_eq_PStr [simp]: "py_eq (PStr s) y = (y = PStr s)"
  by (cases y) auto

lemma py_in_PStr [simp]: "py_in (PStr s) S = (PStr s \<in> S)"
  by (auto simp: py_in_def)

lemma py_add_PStr [simp]: "py_add (PStr s) S = insert (PStr s) S"
  by (auto simp: py_add_def)

lemma filter_loop_ok:
  "\<forall>i\<in>set xs. \<exists>h. i ht = Some h \<and> hashable h \<Longrightarrow>
   filter_loop cl ht an xs =
     Inr (map (\<lambda>i. filter_body cl (the (i ht)) i) xs,
          fold py_add (map (\<lambda>i. the (i ht)) xs) an)"
  by (induction xs arbitrary: an) auto

lemma filter_loop_KeyError:
  "filter_loop cl ht an (i # rest) = Inl KeyError" if "i ht = None"
  using that by simp

text \<open>
  Membership is Python's: a record whose hash is the integer 1 matches a check list that
  holds \<open>True\<close>.
\<close>

lemma filter_matches_by_python_equality:
  "filter_att {PBool True} ''k'' [[''k'' \<mapsto> PInt 1, ''payload'' \<mapsto> PStr ''x'']]
     = Inr ([[''k'' \<mapsto> PInt 1, ''is_filtered'' \<mapsto> PBool True]], {PInt 1})"
  by (simp add: filter_att_def filter_body_def py_in_def py_add_def fun_upd_twist)

text \<open>
  C1 (as amended). For three records whose sha1 values are \<open>a\<close>, \<open>b\<close>, \<open>c\<close> with
  \<open>b\<close> different from \<open>a\<close> and \<open>c\<close>, \<open>filter(collection, {a, c}, "sha1")\<close> leaves the
  first and third record with \<open>is_filtered = True\<close> and no payload, leaves the second with
  \<open>is_filtered = False\<close> and its payload as it was, and returns the set of all hashes
  seen, \<open>{a, b, c}\<close>.
\<close>

theorem filter_three_records:
  assumes "r1 ''sha1'' = Some (PStr a)" and "r2 ''sha1'' = Some (PStr b)"
    and "r3 ''sha1'' = Some (PStr c)" and "b \<noteq> a" and "b \<noteq> c"
  shows "filter_att {PStr a, PStr c} ''sha1'' [r1, r2, r3] =
           Inr ([(r1(''payload'' := None))(''is_filtered'' \<mapsto> PBool True),
                 r2(''is_filtered'' \<mapsto> PBool False),
                 (r3(''payload'' := None))(''is_filtered'' \<mapsto> PBool True)],
                {PStr a, PStr b, PStr c})
         \<and> (r2(''is_filtered'' \<mapsto> PBool False)) ''payload'' = r2 ''payload''"
  using assms by (simp add: filter_att_def filter_body_def insert_commute)

theorem filter_three_records_witness:
  "[''sha1'' \<mapsto> PStr ''A'', ''payload'' \<mapsto> PStr ''x''] ''sha1'' = Some (PStr ''A'')
   \<and> [''sha1'' \<mapsto> PStr ''B'', ''payload'' \<mapsto> PStr ''y''] ''sha1'' = Some (PStr ''B'')
   \<and> [''sha1'' \<mapsto> PStr ''C'', ''payload'' \<mapsto> PStr ''z''] ''sha1'' = Some (PStr ''C'')
   \<and> ''B'' \<noteq> ''A'' \<and> ''B'' \<noteq> ''C''
   \<and> filter_att {PStr ''A'', PStr ''C''} ''sha1''
         [[''sha1'' \<mapsto> PStr ''A'', ''payload'' \<mapsto> PStr ''x''],
          [''sha1'' \<mapsto> PStr ''B'', ''payload'' \<mapsto> PStr ''y''],
          [''sha1'' \<mapsto> PStr ''C'', ''payload'' \<mapsto> PStr ''z'']] =
       Inr ([[''sha1'' \<mapsto> PStr ''A'', ''is_filtered'' \<mapsto> PBool True],
             [''sha1'' \<mapsto> PStr ''B'', ''payload'' \<mapsto> PStr ''y'', ''is_filtered'' \<mapsto> PBool False],
             [''sha1'' \<mapsto> PStr ''C'', ''is_filtered'' \<mapsto> PBool True]],
            {PStr ''A'', PStr ''B'', PStr ''C''})"
  using filter_three_records
    [of "[''sha1'' \<mapsto> PStr ''A'', ''payload'' \<mapsto> PStr ''x'']" "''A''"
        "[''sha1'' \<mapsto> PStr ''B'', ''payload'' \<mapsto> PStr ''y'']" "''B''"
        "[''sha1'' \<mapsto> PStr ''C'', ''payload'' \<mapsto> PStr ''z'']" "''C''"]
  by (simp add: fun_upd_twist)

text \<open>
  C1 (as stated) fails: on three records with sha1 \<open>A\<close>, \<open>B\<close>, \<open>C\<close> and the check list
  \<open>{A, C}\<close> the call returns \<open>{A, B, C}\<close>, which is not \<open>{A, C}\<close>.
\<close>

theorem filter_returns_all_seen_counterexample:
  "map_sum id snd (filter_att {PStr ''A'', PStr ''C''} ''sha1''
      [[''sha1'' \<mapsto> PStr ''A'', ''payload'' \<mapsto> PStr ''x''],
       [''sha1'' \<mapsto> PStr ''B'', ''payload'' \<mapsto> PStr ''y''],
       [''sha1'' \<mapsto> PStr ''C'', ''payload'' \<mapsto> PStr ''z'']])
     = Inr {PStr ''A'', PStr ''B'', PStr ''C''}
   \<and> {PStr ''A'', PStr ''B'', PStr ''C''} \<noteq> {PStr ''A'', PStr ''C''}"
proof
  show "map_sum id snd (filter_att {PStr ''A'', PStr ''C''} ''sha1''
      [[''sha1'' \<mapsto> PStr ''A'', ''payload'' \<mapsto> PStr ''x''],
       [''sha1'' \<mapsto> PStr ''B'', ''payload'' \<mapsto> PStr ''y''],
       [''sha1'' \<mapsto> PStr ''C'', ''payload'' \<mapsto> PStr ''z'']])
     = Inr {PStr ''A'', PStr ''B'', PStr ''C''}"
    by (simp add: filter_att_def filter_body_def insert_commute)
  show "{PStr ''A'', PStr ''B'', PStr ''C''} \<noteq> {PStr ''A'', PStr ''C''}"
  proof
    assume eq: "{PStr ''A'', PStr ''B'', PStr ''C''} = {PStr ''A'', PStr ''C''}"
    have "PStr ''B'' \<in> {PStr ''A'', PStr ''B'', PStr ''C''}" by simp
    then have "PStr ''B'' \<in> {PStr ''A'', PStr ''C''}" unfolding eq .
    then show False by simp
  qed
qed

text \<open>
  C9. \<open>filter\<close> assigns \<open>is_filtered\<close> on every record. When every record has a
  hashable value under \<open>hash_type\<close> the call returns, the collection keeps its length,
  a record whose hash is in the check list (by Python's membership, \<open>py_in\<close>) ends with
  \<open>is_filtered = True\<close> and no payload, and every other record ends as it was except for
  \<open>is_filtered = False\<close>: whatever the flag was before, and with the payload key
  untouched (a payload dropped earlier stays dropped).
\<close>

theorem filter_assigns_flag_on_every_record:
  assumes "\<forall>i\<in>set self. \<exists>h. i hash_type = Some h \<and> hashable h"
  shows "\<exists>out an. filter_att check_list hash_type self = Inr (out, an)
           \<and> length out = length self
           \<and> (\<forall>n<length self.
                 (py_in (the ((self ! n) hash_type)) check_list \<longrightarrow>
                    out ! n = ((self ! n)(''payload'' := None))(''is_filtered'' \<mapsto> PBool True))
               \<and> (\<not> py_in (the ((self ! n) hash_type)) check_list \<longrightarrow>
                    out ! n = (self ! n)(''is_filtered'' \<mapsto> PBool False)
                    \<and> (out ! n) ''is_filtered'' = Some (PBool False)
                    \<and> (out ! n) ''payload'' = (self ! n) ''payload''))"
  using assms by (simp add: filter_att_def filter_loop_ok filter_body_def)

theorem filter_assigns_flag_on_every_record_witness:
  "\<exists>out an. filter_att {PStr ''A'', PBool True} ''sha1''
         [[''sha1'' \<mapsto> PStr ''A'', ''payload'' \<mapsto> PStr ''x''],
          [''sha1'' \<mapsto> PStr ''B'', ''is_filtered'' \<mapsto> PBool True],
          [''sha1'' \<mapsto> PInt 1, ''payload'' \<mapsto> PStr ''z'']] = Inr (out, an)
     \<and> length out = 3
     \<and> out ! 0 = [''sha1'' \<mapsto> PStr ''A'', ''is_filtered'' \<mapsto> PBool True]
     \<and> out ! 1 = [''sha1'' \<mapsto> PStr ''B'', ''is_filtered'' \<mapsto> PBool False]
     \<and> (out ! 1) ''payload'' = None
     \<and> out ! 2 = [''sha1'' \<mapsto> PInt 1, ''is_filtered'' \<mapsto> PBool True]"
proof -
  let ?c = "[[''sha1'' \<mapsto> PStr ''A'', ''payload'' \<mapsto> PStr ''x''],
             [''sha1'' \<mapsto> PStr ''B'', ''is_filtered'' \<mapsto> PBool True],
             [''sha1'' \<mapsto> PInt 1, ''payload'' \<mapsto> PStr ''z'']]"
  let ?cl = "{PStr ''A'', PBool True}"
  have h: "\<forall>i\<in>set ?c. \<exists>h. i ''sha1'' = Some h \<and> hashable h" by simp
  from filter_assigns_flag_on_every_record [OF h, of ?cl]
  obtain out an where r: "filter_att ?cl ''sha1'' ?c = Inr (out, an)"
    and l: "length out = length ?c"
    and a: "\<And>n. n < length ?c \<Longrightarrow>
                 (py_in (the ((?c ! n) ''sha1'')) ?cl \<longrightarrow>
                    out ! n = ((?c ! n)(''payload'' := None))(''is_filtered'' \<mapsto> PBool True))
               \<and> (\<not> py_in (the ((?c ! n) ''sha1'')) ?cl \<longrightarrow>
                    out ! n = (?c ! n)(''is_filtered'' \<mapsto> PBool False)
                    \<and> (out ! n) ''is_filtered'' = Some (PBool False)
                    \<and> (out ! n) ''payload'' = (?c ! n) ''payload'')"
    by blast
  from a [of 0] have o0: "out ! 0 = [''sha1'' \<mapsto> PStr ''A'', ''is_filtered'' \<mapsto> PBool True]"
    by (simp add: fun_upd_twist)
  from a [of 1] have o1: "out ! 1 = [''sha1'' \<mapsto> PStr ''B'', ''is_filtered'' \<mapsto> PBool False]"
    and p1: "(out ! 1) ''payload'' = None"
    by (simp_all add: fun_upd_twist)
  have "py_in (PInt 1) ?cl" by (simp add: py_in_def)
  with a [of 2] have o2: "out ! 2 = [''sha1'' \<mapsto> PInt 1, ''is_filtered'' \<mapsto> PBool True]"
    by (simp add: fun_upd_twist)
  from r l o0 o1 p1 o2 show ?thesis by simp
qed

subsection \<open>pophash\<close>

lemma pophash_loop_eq:
  "pophash_loop h tr xs =
     (if xs = [] then Inr tr
      else case map_of len_hashes (length h) of
             None \<Rightarrow> Inl HashError
           | Some key \<Rightarrow> Inr (tr @ filter (\<lambda>i. i key = Some (PStr h)) xs))"
proof (induction xs arbitrary: tr)
  case Nil
  then show ?case by simp
next
  case (Cons i rest)
  show ?case
    by (cases "map_of len_hashes (length h)") (auto simp: Cons.IH domIff)
qed

text \<open>
  For a hash of a recognised length \<open>pophash\<close> returns the collection without the
  records whose field of that length's algorithm equals the hash, in the order they had.
\<close>

lemma pophash_removes_matching:
  assumes "map_of len_hashes (length h) = Some key"
  shows "pophash h self = Inr (filter (\<lambda>i. i key \<noteq> Some (PStr h)) self)"
  using assms by (simp add: pophash_def pophash_loop_eq fold_remove1_filter)

text \<open>On a collection that is not empty a hash of any other length raises \<open>HashError\<close>.\<close>

lemma pophash_bad_length_nonempty:
  assumes "length h \<notin> {32, 40, 64, 128}" and "self \<noteq> []"
  shows "pophash h self = Inl HashError"
  using assms by (simp add: pophash_def pophash_loop_eq len_hashes_def)

text \<open>
  C2 (failing input). On the empty collection the loop body never runs, so the length of
  the hash is never looked up: \<open>pophash\<close> of a three-character string returns normally,
  with the collection still empty, where the claim has it raise \<open>HashError\<close>.
\<close>

theorem pophash_empty_collection_returns:
  "pophash ''abc'' [] = Inr []"
  by (simp add: pophash_def)

subsection \<open>popcontenttype\<close>

lemma inner_loop_ok:
  "\<forall>j\<in>set fs. \<not> isl (content_type_lower j) \<Longrightarrow>
   inner_loop ct ir fs = Inr (ir @ filter (matches ct) fs)"
proof (induction fs arbitrary: ir)
  case Nil
  then show ?case by simp
next
  case (Cons j rest)
  then obtain c where "content_type_lower j = Inr c"
    by (cases "content_type_lower j") auto
  with Cons show ?case by (simp add: matches_def)
qed

lemma inner_loop_Inr:
  "inner_loop ct ir fs = Inr r \<Longrightarrow> r = ir @ filter (matches ct) fs"
proof (induction fs arbitrary: ir)
  case Nil
  then show ?case by simp
next
  case (Cons j rest)
  show ?case
  proof (cases "content_type_lower j")
    case (Inl e)
    with Cons.prems show ?thesis by simp
  next
    case (Inr c)
    with Cons.prems have "inner_loop ct (if c = ct then ir @ [j] else ir) rest = Inr r"
      by simp
    from Cons.IH [OF this] Inr show ?thesis by (simp add: matches_def)
  qed
qed

lemma inner_loop_Inl:
  "inner_loop ct ir fs = Inl e \<Longrightarrow> \<exists>j\<in>set fs. content_type_lower j = Inl e"
proof (induction fs arbitrary: ir)
  case Nil
  then show ?case by simp
next
  case (Cons j rest)
  then show ?case
    by (cases "content_type_lower j") auto
qed

lemma inner_loop_KeyError:
  "list_all content_type_typed fs \<Longrightarrow> list_ex (\<lambda>j. j ''Content-Type'' = None) fs \<Longrightarrow>
   inner_loop ct ir fs = Inl KeyError"
proof (induction fs arbitrary: ir)
  case Nil
  then show ?case by simp
next
  case (Cons j rest)
  then show ?case
    by (auto simp: content_type_lower_def content_type_typed_def split: option.splits pyval.splits)
qed

lemma remove_inner_eq:
  "i ''files'' = Some (PList fs) \<Longrightarrow>
   remove_inner i ir = i(''files'' \<mapsto> PList (fold remove1 ir fs))"
  unfolding remove_inner_def
  by (induction ir arbitrary: i fs) auto

lemma remove_inner_Nil: "remove_inner i [] = i"
  by (simp add: remove_inner_def)

lemma try_None:
  "except_KeyError (popcontenttype_try ct i) = Inr None \<longleftrightarrow> matches ct i"
  by (auto simp: except_KeyError_def popcontenttype_try_def matches_def
           split: sum.splits error.splits if_splits)

lemma try_Some:
  assumes "except_KeyError (popcontenttype_try ct i) = Inr (Some ir)" and "\<not> is_filtered i"
  shows "\<not> matches ct i \<and> remove_inner i ir = prune_members ct i"
proof -
  from assms(1) obtain c fs where c: "content_type_lower i = Inr c" "c \<noteq> ct"
    and fs: "files_iter i = Inr fs" and il: "inner_loop ct [] fs = Inr ir"
    by (auto simp: except_KeyError_def popcontenttype_try_def
             split: sum.splits error.splits if_splits)
  from il have ir: "ir = filter (matches ct) fs" by (auto dest: inner_loop_Inr)
  have "remove_inner i ir = prune_members ct i"
  proof (cases "i ''files''")
    case None
    with fs ir assms(2) show ?thesis
      by (simp add: files_iter_def prune_members_def remove_inner_Nil)
  next
    case (Some v)
    show ?thesis
    proof (cases v)
      case (PList gs)
      with Some fs have "gs = fs" by (simp add: files_iter_def)
      with Some PList ir assms(2) show ?thesis
        by (simp add: remove_inner_eq prune_members_def fold_remove1_filter)
    next
      case (PStr s)
      with Some fs ir assms(2) show ?thesis
        by (auto simp: files_iter_def prune_members_def remove_inner_Nil split: if_splits)
    qed (use Some fs in \<open>simp_all add: files_iter_def\<close>)
  qed
  with c show ?thesis by (simp add: matches_def)
qed

lemma popcontenttype_loop_Inr:
  "popcontenttype_loop ct rm xs = Inr (out, rm') \<Longrightarrow>
   out = map (\<lambda>i. if \<not> is_filtered i \<and> matches ct i then i else prune_members ct i) xs
   \<and> rm' = rm @ filter (\<lambda>i. \<not> is_filtered i \<and> matches ct i) xs"
proof (induction xs arbitrary: rm out)
  case Nil
  then show ?case by simp
next
  case (Cons i rest)
  show ?case
  proof (cases "is_filtered i")
    case True
    with Cons.prems obtain o2 where
      "popcontenttype_loop ct rm rest = Inr (o2, rm')" "out = i # o2"
      by (auto split: sum.splits)
    with Cons.IH [of rm o2] True show ?thesis by (simp add: prune_members_def)
  next
    case False
    show ?thesis
    proof (cases "except_KeyError (popcontenttype_try ct i)")
      case (Inl e)
      with False Cons.prems show ?thesis by simp
    next
      case (Inr r)
      show ?thesis
      proof (cases r)
        case None
        with Inr have m: "matches ct i" by (simp add: try_None)
        from None Inr False Cons.prems obtain o2 where
          "popcontenttype_loop ct (rm @ [i]) rest = Inr (o2, rm')" "out = i # o2"
          by (auto split: sum.splits)
        with Cons.IH [of "rm @ [i]" o2] False m show ?thesis by simp
      next
        case (Some ir)
        with Inr False have m: "\<not> matches ct i" "remove_inner i ir = prune_members ct i"
          using try_Some by blast+
        from Some Inr False Cons.prems obtain o2 where
          "popcontenttype_loop ct rm rest = Inr (o2, rm')" "out = remove_inner i ir # o2"
          by (auto split: sum.splits)
        with Cons.IH [of rm o2] False m show ?thesis by simp
      qed
    qed
  qed
qed

lemma fold_remove1_map:
  assumes "\<forall>x\<in>set xs. P x \<longrightarrow> f x = x" and "\<forall>x\<in>set xs. P (f x) = P x"
  shows "fold remove1 (filter P xs) (map f xs) = map f (filter (\<lambda>x. \<not> P x) xs)"
  using assms
proof (induction xs)
  case Nil
  then show ?case by simp
next
  case (Cons x xs)
  show ?case
  proof (cases "P x")
    case True
    with Cons show ?thesis by simp
  next
    case False
    with Cons.prems have nf: "\<not> P (f x)" by simp
    have "fold remove1 (filter P xs) (f x # map f xs) = f x # fold remove1 (filter P xs) (map f xs)"
      by (rule fold_remove1_skip [where P = P]) (use nf in auto)
    with False Cons show ?thesis by simp
  qed
qed

lemma is_filtered_prune [simp]: "is_filtered (prune_members ct i) = is_filtered i"
  by (auto simp: prune_members_def is_filtered_def dict_get_def split: option.splits pyval.splits)

lemma matches_prune [simp]: "matches ct' (prune_members ct i) = matches ct' i"
  by (auto simp: prune_members_def matches_def content_type_lower_def split: option.splits pyval.splits)

lemma prune_filtered [simp]: "is_filtered i \<Longrightarrow> prune_members ct i = i"
  by (simp add: prune_members_def)

lemma popcontenttype_Inr:
  assumes "popcontenttype c self = Inr out"
  shows "out = map (prune_members (lower c))
                 (filter (\<lambda>i. is_filtered i \<or> \<not> matches (lower c) i) self)"
proof -
  let ?P = "\<lambda>i. \<not> is_filtered i \<and> matches (lower c) i"
  let ?f = "\<lambda>i. if ?P i then i else prune_members (lower c) i"
  from assms obtain o2 rm where l: "popcontenttype_loop (lower c) [] self = Inr (o2, rm)"
    and out: "out = fold remove1 rm o2"
    by (auto simp: popcontenttype_def split: sum.splits)
  from popcontenttype_loop_Inr [OF l] have o2: "o2 = map ?f self" and rm: "rm = filter ?P self"
    by simp_all
  have "fold remove1 (filter ?P self) (map ?f self) = map ?f (filter (\<lambda>x. \<not> ?P x) self)"
    by (rule fold_remove1_map) auto
  also have "\<dots> = map (prune_members (lower c)) (filter (\<lambda>i. is_filtered i \<or> \<not> matches (lower c) i) self)"
    by (induction self) auto
  finally show ?thesis using out o2 rm by simp
qed

lemma bind_pair_Inl:
  "((case x of Inl e \<Rightarrow> Inl e | Inr (a, b) \<Rightarrow> Inr (f a b)) = Inl e') = (x = Inl e')"
  by (cases x) auto

lemma popcontenttype_loop_Inl:
  "popcontenttype_loop ct rm xs = Inl e \<Longrightarrow>
   \<exists>i\<in>set xs. \<not> is_filtered i \<and> except_KeyError (popcontenttype_try ct i) = Inl e"
proof (induction xs arbitrary: rm)
  case Nil
  then show ?case by simp
next
  case (Cons i rest)
  show ?case
  proof (cases "is_filtered i")
    case True
    with Cons.prems have "popcontenttype_loop ct rm rest = Inl e"
      by (simp add: bind_pair_Inl)
    from Cons.IH [OF this] show ?thesis by auto
  next
    case False
    show ?thesis
    proof (cases "except_KeyError (popcontenttype_try ct i)")
      case (Inl e')
      with False Cons.prems show ?thesis by simp
    next
      case (Inr r)
      show ?thesis
      proof (cases r)
        case None
        with Inr False Cons.prems have "popcontenttype_loop ct (rm @ [i]) rest = Inl e"
          by (simp add: bind_pair_Inl)
        from Cons.IH [OF this] show ?thesis by auto
      next
        case (Some ir)
        with Inr False Cons.prems have "popcontenttype_loop ct rm rest = Inl e"
          by (simp add: bind_pair_Inl)
        from Cons.IH [OF this] show ?thesis by auto
      qed
    qed
  qed
qed

lemma popcontenttype_loop_skip_filtered:
  "(popcontenttype_loop ct rm xs = Inl e) =
   (popcontenttype_loop ct rm2 (filter (\<lambda>i. \<not> is_filtered i) xs) = Inl e)"
proof (induction xs arbitrary: rm rm2)
  case Nil
  then show ?case by simp
next
  case (Cons i rest)
  show ?case
  proof (cases "is_filtered i")
    case True
    with Cons.IH [of rm rm2] show ?thesis by (simp add: bind_pair_Inl)
  next
    case False
    show ?thesis
    proof (cases "except_KeyError (popcontenttype_try ct i)")
      case (Inl e')
      with False show ?thesis by simp
    next
      case (Inr r)
      show ?thesis
      proof (cases r)
        case None
        with Inr False Cons.IH [of "rm @ [i]" "rm2 @ [i]"] show ?thesis
          by (simp add: bind_pair_Inl)
      next
        case (Some ir)
        with Inr False Cons.IH [of rm rm2] show ?thesis
          by (simp add: bind_pair_Inl)
      qed
    qed
  qed
qed

lemma popcontenttype_loop_fails:
  assumes "i \<in> set xs" and "\<not> is_filtered i"
    and "except_KeyError (popcontenttype_try ct i) = Inl e"
    and "\<forall>k\<in>set xs. \<not> is_filtered k \<longrightarrow>
           (\<forall>e'. except_KeyError (popcontenttype_try ct k) = Inl e' \<longrightarrow> e' = e)"
  shows "popcontenttype_loop ct rm xs = Inl e"
  using assms
proof (induction xs arbitrary: rm)
  case Nil
  then show ?case by simp
next
  case (Cons k rest)
  from Cons.prems(4) have rest: "\<forall>k\<in>set rest. \<not> is_filtered k \<longrightarrow>
           (\<forall>e'. except_KeyError (popcontenttype_try ct k) = Inl e' \<longrightarrow> e' = e)"
    and k: "\<not> is_filtered k \<longrightarrow>
           (\<forall>e'. except_KeyError (popcontenttype_try ct k) = Inl e' \<longrightarrow> e' = e)"
    by simp_all
  have ih: "popcontenttype_loop ct rm' rest = Inl e" if "i \<in> set rest" for rm'
    using Cons.IH [OF that Cons.prems(2) Cons.prems(3) rest] .
  show ?case
  proof (cases "is_filtered k")
    case True
    with Cons.prems(1,2) have "i \<in> set rest" by auto
    with True show ?thesis by (simp add: ih)
  next
    case False
    show ?thesis
    proof (cases "except_KeyError (popcontenttype_try ct k)")
      case (Inl e')
      with False k have "e' = e" by simp
      with Inl False show ?thesis by simp
    next
      case (Inr r)
      with Cons.prems(1,3) have "i \<in> set rest" by auto
      with Inr False show ?thesis by (cases r) (simp_all add: ih)
    qed
  qed
qed

lemma try_well_typed:
  assumes "well_typed i"
  shows "except_KeyError (popcontenttype_try ct i) =
           (if lacks_content_type ct i then Inl ContentTypeError
            else if matches ct i then Inr None
            else Inr (Some (filter (matches ct)
                    (case i ''files'' of Some (PList fs) \<Rightarrow> fs | _ \<Rightarrow> []))))"
proof (cases "i ''Content-Type''")
  case None
  then show ?thesis
    by (simp add: lacks_content_type_def popcontenttype_try_def content_type_lower_def
        except_KeyError_def)
next
  case (Some v)
  with assms obtain s where s: "i ''Content-Type'' = Some (PStr s)"
    by (auto simp: well_typed_def content_type_typed_def split: pyval.splits)
  show ?thesis
  proof (cases "lower s = ct")
    case True
    with s show ?thesis
      by (simp add: lacks_content_type_def popcontenttype_try_def content_type_lower_def
          except_KeyError_def matches_def)
  next
    case False
    show ?thesis
    proof (cases "i ''files''")
      case None
      with s False show ?thesis
        by (simp add: lacks_content_type_def popcontenttype_try_def content_type_lower_def
            except_KeyError_def matches_def files_iter_def)
    next
      case (Some w)
      with assms obtain fs where fs: "i ''files'' = Some (PList fs)"
        and ty: "list_all content_type_typed fs"
        by (auto simp: well_typed_def split: pyval.splits)
      show ?thesis
      proof (cases "list_ex (\<lambda>j. j ''Content-Type'' = None) fs")
        case True
        from inner_loop_KeyError [OF ty True] have "inner_loop ct [] fs = Inl KeyError" .
        with s False fs True show ?thesis
          by (simp add: lacks_content_type_def popcontenttype_try_def content_type_lower_def
              except_KeyError_def matches_def files_iter_def)
      next
        case nex: False
        have "\<forall>j\<in>set fs. \<not> isl (content_type_lower j)"
        proof
          fix j assume j: "j \<in> set fs"
          with ty have "content_type_typed j" by (simp add: list_all_iff)
          moreover from j nex have "j ''Content-Type'' \<noteq> None" by (auto simp: list_ex_iff)
          ultimately show "\<not> isl (content_type_lower j)"
            by (auto simp: content_type_typed_def content_type_lower_def split: option.splits pyval.splits)
        qed
        then have "inner_loop ct [] fs = Inr (filter (matches ct) fs)"
          using inner_loop_ok [of fs ct "[]"] by simp
        with s False fs nex show ?thesis
          by (simp add: lacks_content_type_def popcontenttype_try_def content_type_lower_def
              except_KeyError_def matches_def files_iter_def)
      qed
    qed
  qed
qed

lemma lower_text_html: "lower ''text/html'' = ''text/html''"
  by code_simp

lemma lower_Text_HTML: "lower ''Text/HTML'' = ''text/html''"
  by code_simp

text \<open>
  C6 (as amended). \<open>popcontenttype\<close> looks only at the records that are not marked
  filtered. When those are typed as the data model has them, the call raises
  \<open>ContentTypeError\<close> if one of them has no \<open>Content-Type\<close>, or is not of the target
  type and has a member without one; otherwise it returns the collection without the
  unfiltered records whose content type equals the target up to letter case, and every
  unfiltered record it keeps has lost the members whose content type equals the target up
  to letter case. Records marked filtered stay, whatever their content type.
\<close>

theorem popcontenttype_unfiltered_well_typed:
  assumes "\<forall>i\<in>set self. \<not> is_filtered i \<longrightarrow> well_typed i"
  shows "popcontenttype content_type self =
           (if \<exists>i\<in>set self. \<not> is_filtered i \<and> lacks_content_type (lower content_type) i
            then Inl ContentTypeError
            else Inr (map (prune_members (lower content_type))
                       (filter (\<lambda>i. is_filtered i \<or> \<not> matches (lower content_type) i) self)))"
proof (cases "\<exists>i\<in>set self. \<not> is_filtered i \<and> lacks_content_type (lower content_type) i")
  case True
  then obtain i where i: "i \<in> set self" "\<not> is_filtered i"
    "lacks_content_type (lower content_type) i" by blast
  with assms have "except_KeyError (popcontenttype_try (lower content_type) i) = Inl ContentTypeError"
    by (simp add: try_well_typed)
  moreover have "\<forall>k\<in>set self. \<not> is_filtered k \<longrightarrow>
      (\<forall>e'. except_KeyError (popcontenttype_try (lower content_type) k) = Inl e' \<longrightarrow>
            e' = ContentTypeError)"
    using assms by (auto simp: try_well_typed split: if_splits)
  ultimately have "popcontenttype_loop (lower content_type) [] self = Inl ContentTypeError"
    using i by (intro popcontenttype_loop_fails [of i]) 
  with True show ?thesis by (simp add: popcontenttype_def)
next
  case False
  have "\<exists>out. popcontenttype content_type self = Inr out"
  proof (cases "popcontenttype_loop (lower content_type) [] self")
    case (Inl e)
    from popcontenttype_loop_Inl [OF Inl] obtain i where i: "i \<in> set self" "\<not> is_filtered i"
      "except_KeyError (popcontenttype_try (lower content_type) i) = Inl e" by blast
    with assms have "lacks_content_type (lower content_type) i"
      by (auto simp: try_well_typed split: if_splits)
    with i False show ?thesis by blast
  next
    case (Inr p)
    then show ?thesis by (cases p) (simp add: popcontenttype_def)
  qed
  then obtain out where out: "popcontenttype content_type self = Inr out" ..
  from popcontenttype_Inr [OF out] out False show ?thesis by simp
qed

lemma popcontenttype_filtered_kept:
  assumes "popcontenttype c self = Inr out"
  shows "filter is_filtered out = filter is_filtered self"
proof -
  have "filter is_filtered (map (prune_members ct) (filter (\<lambda>i. is_filtered i \<or> \<not> matches ct i) xs))
        = filter is_filtered xs" for ct xs
    by (induction xs) auto
  with popcontenttype_Inr [OF assms] show ?thesis by simp
qed

lemma popcontenttype_error_ignores_filtered:
  "map_sum id (filter (\<lambda>i. \<not> is_filtered i)) (popcontenttype c self) =
   popcontenttype c (filter (\<lambda>i. \<not> is_filtered i) self)"
proof (cases "popcontenttype c self")
  case (Inl e)
  then have "popcontenttype_loop (lower c) [] self = Inl e"
    by (auto simp: popcontenttype_def split: sum.splits)
  then have "popcontenttype_loop (lower c) [] (filter (\<lambda>i. \<not> is_filtered i) self) = Inl e"
    using popcontenttype_loop_skip_filtered [of "lower c" "[]" self e "[]"] by simp
  with Inl show ?thesis by (simp add: popcontenttype_def)
next
  case (Inr out)
  have "\<exists>o2. popcontenttype c (filter (\<lambda>i. \<not> is_filtered i) self) = Inr o2"
  proof (cases "popcontenttype_loop (lower c) [] (filter (\<lambda>i. \<not> is_filtered i) self)")
    case (Inl e)
    then have "popcontenttype_loop (lower c) [] self = Inl e"
      using popcontenttype_loop_skip_filtered [of "lower c" "[]" self e "[]"] by simp
    with Inr show ?thesis by (simp add: popcontenttype_def)
  next
    case (Inr p)
    then show ?thesis by (cases p) (simp add: popcontenttype_def)
  qed
  then obtain o2 where o2: "popcontenttype c (filter (\<lambda>i. \<not> is_filtered i) self) = Inr o2" ..
  have "filter (\<lambda>i. \<not> is_filtered i)
          (map (prune_members ct) (filter (\<lambda>i. is_filtered i \<or> \<not> matches ct i) xs))
        = map (prune_members ct)
            (filter (\<lambda>i. is_filtered i \<or> \<not> matches ct i) (filter (\<lambda>i. \<not> is_filtered i) xs))"
    for ct xs
    by (induction xs) auto
  with popcontenttype_Inr [OF Inr] popcontenttype_Inr [OF o2] Inr o2 show ?thesis by simp
qed

text \<open>
  C6 (as stated) fails: a top-level record whose content type is the target, but which is
  marked filtered, is not removed.
\<close>

theorem popcontenttype_keeps_filtered_match_counterexample:
  "popcontenttype ''text/html''
     [[''Content-Type'' \<mapsto> PStr ''text/html'', ''is_filtered'' \<mapsto> PBool True]]
   = Inr [[''Content-Type'' \<mapsto> PStr ''text/html'', ''is_filtered'' \<mapsto> PBool True]]
   \<and> content_type_lower [''Content-Type'' \<mapsto> PStr ''text/html'', ''is_filtered'' \<mapsto> PBool True]
     = Inr (lower ''text/html'')"
  by (simp add: popcontenttype_def is_filtered_def dict_get_def content_type_lower_def
      lower_text_html)

lemma lower_TEXT_HTML: "lower ''TEXT/HTML'' = ''text/html''"
  by code_simp

lemma lower_application_zip: "lower ''application/zip'' = ''application/zip''"
  by code_simp

lemma lower_text_plain: "lower ''text/plain'' = ''text/plain''"
  by code_simp

theorem popcontenttype_unfiltered_well_typed_witness:
  "popcontenttype ''TEXT/HTML''
     [[''Content-Type'' \<mapsto> PStr ''text/html''],
      [''Content-Type'' \<mapsto> PStr ''application/zip'',
       ''files'' \<mapsto> PList [[''Content-Type'' \<mapsto> PStr ''Text/HTML''],
                          [''Content-Type'' \<mapsto> PStr ''text/plain'']]],
      [''Content-Type'' \<mapsto> PStr ''text/html'', ''is_filtered'' \<mapsto> PBool True]]
   = Inr [[''Content-Type'' \<mapsto> PStr ''application/zip'',
           ''files'' \<mapsto> PList [[''Content-Type'' \<mapsto> PStr ''text/plain'']]],
          [''Content-Type'' \<mapsto> PStr ''text/html'', ''is_filtered'' \<mapsto> PBool True]]"
proof -
  let ?S = "[[''Content-Type'' \<mapsto> PStr ''text/html''],
      [''Content-Type'' \<mapsto> PStr ''application/zip'',
       ''files'' \<mapsto> PList [[''Content-Type'' \<mapsto> PStr ''Text/HTML''],
                          [''Content-Type'' \<mapsto> PStr ''text/plain'']]],
      [''Content-Type'' \<mapsto> PStr ''text/html'', ''is_filtered'' \<mapsto> PBool True]]"
  have h: "\<forall>i\<in>set ?S. \<not> is_filtered i \<longrightarrow> well_typed i"
    by (simp add: is_filtered_def dict_get_def well_typed_def content_type_typed_def)
  from popcontenttype_unfiltered_well_typed [OF h, of "''TEXT/HTML''"] show ?thesis
    by (simp add: lacks_content_type_def matches_def content_type_lower_def prune_members_def
        is_filtered_def dict_get_def lower_TEXT_HTML lower_text_html lower_Text_HTML
        lower_application_zip lower_text_plain)
qed

text \<open>
  C10. \<open>popcontenttype\<close> never inspects, changes or removes a record whose
  \<open>is_filtered\<close> flag is true. The outcome on a collection is the outcome on the
  collection without its filtered records (the same error, or the same surviving
  unfiltered records), so a filtered record never causes \<open>ContentTypeError\<close>; and when
  the call returns, the filtered records of the result are the filtered records of the
  input, unchanged and in the same order.
\<close>

theorem popcontenttype_ignores_filtered:
  "map_sum id (filter (\<lambda>i. \<not> is_filtered i)) (popcontenttype content_type self) =
     popcontenttype content_type (filter (\<lambda>i. \<not> is_filtered i) self)
   \<and> (\<forall>out. popcontenttype content_type self = Inr out \<longrightarrow>
          filter is_filtered out = filter is_filtered self)"
  using popcontenttype_error_ignores_filtered popcontenttype_filtered_kept by blast

theorem popcontenttype_ignores_filtered_witness:
  "popcontenttype ''text/html''
     [[''Content-Type'' \<mapsto> PStr ''text/html''],
      [''is_filtered'' \<mapsto> PBool True],
      [''Content-Type'' \<mapsto> PStr ''text/html'', ''is_filtered'' \<mapsto> PBool True]]
   = Inr [[''is_filtered'' \<mapsto> PBool True],
          [''Content-Type'' \<mapsto> PStr ''text/html'', ''is_filtered'' \<mapsto> PBool True]]
   \<and> filter is_filtered
        [[''is_filtered'' \<mapsto> PBool True],
         [''Content-Type'' \<mapsto> PStr ''text/html'', ''is_filtered'' \<mapsto> PBool True]]
     = filter is_filtered
        [[''Content-Type'' \<mapsto> PStr ''text/html''],
         [''is_filtered'' \<mapsto> PBool True],
         [''Content-Type'' \<mapsto> PStr ''text/html'', ''is_filtered'' \<mapsto> PBool True]]"
proof -
  let ?S = "[[''Content-Type'' \<mapsto> PStr ''text/html''],
      [''is_filtered'' \<mapsto> PBool True],
      [''Content-Type'' \<mapsto> PStr ''text/html'', ''is_filtered'' \<mapsto> PBool True]]"
  let ?out = "[[''is_filtered'' \<mapsto> PBool True],
          [''Content-Type'' \<mapsto> PStr ''text/html'', ''is_filtered'' \<mapsto> PBool True]]"
  have r: "popcontenttype ''text/html'' ?S = Inr ?out"
    by (simp add: popcontenttype_def popcontenttype_try_def except_KeyError_def
        content_type_lower_def is_filtered_def dict_get_def lower_text_html)
  from popcontenttype_ignores_filtered [of "''text/html''" ?S] r
  have "filter is_filtered ?out = filter is_filtered ?S" by blast
  with r show ?thesis by blast
qed

subsection \<open>extension\<close>

lemma length_splitext_loop: "length (splitext_loop p d f) = 2"
  by (induction p d f rule: splitext_loop.induct)
    (simp add: splitext_loop.simps [of p d f for p d f])

lemma length_splitext: "length (splitext p) = 2"
  by (simp add: splitext_def Let_def length_splitext_loop)

text \<open>
  \<open>splitext\<close> always returns a pair, so the test \<open>len(ext) > 1\<close> always holds and the
  \<open>else None\<close> branch is never taken: the extension is never absent.
\<close>

lemma extension_is_Some: "extension filename = Some (lower (last (splitext filename)))"
  by (simp add: extension_def Let_def length_splitext)

lemma extension_lower_cased_example: "extension ''a/b.c/Archive.tar.GZ'' = Some ''.gz''"
  by code_simp

text \<open>
  C4 (failing input). For the file name \<open>README\<close>, which has no dot, \<open>extension\<close> returns
  the empty string, where the claim (and the \<open>else None\<close> of the code) has the extension
  absent.
\<close>

theorem extension_without_dot_is_empty_string:
  "extension ''README'' = Some []"
  by code_simp

subsection \<open>check_archive and is_archive\<close>

text \<open>A failing archive test gives \<open>is_archive = False\<close> as a result, not an error.\<close>

lemma check_archive_test_failure:
  assumes "mkstemp e files = Some temp" and "write_ok e data" and "\<not> test_archive_ok e data"
  shows "fst (check_archive e data True files) = Inr (FlagAndPath False temp)"
    and "fst (check_archive e data False files) = Inr (OnlyFlag False)"
    and "fst (is_archive e data True files) = Inr (FlagAndPath False temp)"
    and "fst (is_archive e data False files) = Inr (OnlyFlag False)"
  using assms by (simp_all add: check_archive_def is_archive_def)

text \<open>A scratch file that was created but cannot be written raises \<open>TempIOError\<close>.\<close>

lemma check_archive_write_failure:
  assumes "mkstemp e files = Some temp" and "\<not> write_ok e data"
  shows "fst (check_archive e data write_sample files) = Inl TempIOError"
    and "fst (is_archive e data write_sample files) = Inl TempIOError"
  using assms by (simp_all add: check_archive_def is_archive_def)

text \<open>
  C8 (failing input). When \<open>tempfile.mkstemp\<close> itself fails, the scratch file cannot be
  created and the error that reaches the caller is \<open>UnboundLocalError\<close>, raised by the
  handler while it formats the message with the unassigned \<open>temp\<close>; the claim has
  \<open>TempIOError\<close> there. Both copies of the function behave so.
\<close>

theorem check_archive_mkstemp_failure:
  "check_archive
     \<lparr>mkstemp = (\<lambda>files. None), mkdtemp = (\<lambda>files. Some ''/tmp/d''),
      write_ok = (\<lambda>data. True), test_archive_ok = (\<lambda>data. True),
      extract_result = (\<lambda>data. Inr [])\<rparr> ''PK'' True {}
     = (Inl UnboundLocalError, {})
   \<and> is_archive
     \<lparr>mkstemp = (\<lambda>files. None), mkdtemp = (\<lambda>files. Some ''/tmp/d''),
      write_ok = (\<lambda>data. True), test_archive_ok = (\<lambda>data. True),
      extract_result = (\<lambda>data. Inr [])\<rparr> ''PK'' True {}
     = (Inl UnboundLocalError, {})"
  by (simp add: check_archive_def is_archive_def)

subsection \<open>_load_whitelist\<close>

lemma reload_flag_True:
  "reload_flag sp now v = Inr True \<longleftrightarrow>
     expiry v = None \<or> expiry v = Some [] \<or> (\<exists>ex t. expiry v = Some ex \<and> sp ex = Some t \<and> now < t)"
  by (auto simp: reload_flag_def split: option.splits)

lemma load_whitelist_loop_ok:
  assumes "\<forall>i<length es. \<exists>b. reload_flag sp (now (n + i)) (snd (es ! i)) = Inr b \<and>
             (b \<longrightarrow> (\<exists>ds. lc (path (snd (es ! i))) = Inr (ConfigList ds)))"
  shows "load_whitelist_loop lc sp now n wl es =
           (Inr (), wl \<union> {d. \<exists>i<length es. reload_flag sp (now (n + i)) (snd (es ! i)) = Inr True \<and>
                              (\<exists>ds. lc (path (snd (es ! i))) = Inr (ConfigList ds) \<and> d \<in> lower ` set ds)})"
  using assms
proof (induction es arbitrary: n wl)
  case Nil
  then show ?case by simp
next
  case (Cons kv rest)
  obtain k v where kv: "kv = (k, v)" by (cases kv)
  from Cons.prems [rule_format, of 0] obtain b where
    b: "reload_flag sp (now n) v = Inr b"
    and lb: "b \<longrightarrow> (\<exists>ds. lc (path v) = Inr (ConfigList ds))"
    by (auto simp: kv)
  have rest: "\<forall>i<length rest. \<exists>b. reload_flag sp (now (Suc n + i)) (snd (rest ! i)) = Inr b \<and>
             (b \<longrightarrow> (\<exists>ds. lc (path (snd (rest ! i))) = Inr (ConfigList ds)))"
  proof (intro allI impI)
    fix i assume "i < length rest"
    then have "Suc i < length (kv # rest)" by simp
    from Cons.prems [rule_format, OF this] show "\<exists>b. reload_flag sp (now (Suc n + i)) (snd (rest ! i)) = Inr b \<and>
             (b \<longrightarrow> (\<exists>ds. lc (path (snd (rest ! i))) = Inr (ConfigList ds)))"
      by simp
  qed
  note ih = Cons.IH [OF rest]
  let ?Q = "\<lambda>m es d i. reload_flag sp (now (m + i)) (snd (es ! i)) = Inr True \<and>
                              (\<exists>ds. lc (path (snd (es ! i))) = Inr (ConfigList ds) \<and> d \<in> lower ` set ds)"
  have split: "{d. \<exists>i<length (kv # rest). ?Q n (kv # rest) d i} =
      {d. ?Q n (kv # rest) d 0} \<union> {d. \<exists>i<length rest. ?Q (Suc n) rest d i}"
  proof (intro set_eqI iffI)
    fix d assume "d \<in> {d. \<exists>i<length (kv # rest). ?Q n (kv # rest) d i}"
    then obtain i where i: "i < length (kv # rest)" "?Q n (kv # rest) d i" by blast
    show "d \<in> {d. ?Q n (kv # rest) d 0} \<union> {d. \<exists>i<length rest. ?Q (Suc n) rest d i}"
    proof (cases i)
      case 0
      with i show ?thesis by simp
    next
      case (Suc j)
      with i have "j < length rest" "?Q (Suc n) rest d j" by simp_all
      then show ?thesis by blast
    qed
  next
    fix d assume "d \<in> {d. ?Q n (kv # rest) d 0} \<union> {d. \<exists>i<length rest. ?Q (Suc n) rest d i}"
    then consider "?Q n (kv # rest) d 0" | j where "j < length rest" "?Q (Suc n) rest d j"
      by blast
    then show "d \<in> {d. \<exists>i<length (kv # rest). ?Q n (kv # rest) d i}"
    proof cases
      case 1
      have "0 < length (kv # rest)" by simp
      with 1 show ?thesis by blast
    next
      case 2
      then have "Suc j < length (kv # rest)" "?Q n (kv # rest) d (Suc j)" by simp_all
      then show ?thesis by blast
    qed
  qed
  show ?case
  proof (cases b)
    case True
    with lb obtain ds where ds: "lc (path v) = Inr (ConfigList ds)" by blast
    have "{d. ?Q n (kv # rest) d 0} = lower ` set ds"
      using b True ds by (auto simp: kv)
    with split b True ds ih [of "wl \<union> lower ` set ds"] show ?thesis
      by (simp add: kv Un_assoc)
  next
    case False
    have "{d. ?Q n (kv # rest) d 0} = {}"
      using b False by (auto simp: kv)
    with split b False ih [of wl] show ?thesis
      by (simp add: kv)
  qed
qed

text \<open>An entry whose expiry is not later than the clock reading is not reloaded.\<close>

lemma reload_flag_expired:
  assumes "expiry v = Some ex" and "ex \<noteq> []" and "strptime ex = Some t" and "t \<le> now"
  shows "reload_flag strptime now v = Inr False"
  using assms by (simp add: reload_flag_def)

text \<open>What \<open>reload_flag\<close> answers, from the entry and the parser alone.\<close>

lemma reload_flag_parses:
  assumes "\<forall>ex. expiry v = Some ex \<and> ex \<noteq> [] \<longrightarrow> strptime ex \<noteq> None"
  shows "\<exists>b. reload_flag strptime now v = Inr b"
  using assms by (auto simp: reload_flag_def split: option.splits)

lemma reload_flag_still_valid:
  assumes "expiry v = Some ex" and "strptime ex = Some t" and "now < t"
  shows "reload_flag strptime now v = Inr True"
  using assms by (simp add: reload_flag_def)

lemma reload_flag_unparsable:
  assumes "expiry v = Some ex" and "ex \<noteq> []" and "strptime ex = None"
  shows "reload_flag strptime now v = Inl ValueError"
  using assms by (simp add: reload_flag_def)

text \<open>
  C7. On reload the whitelist is rebuilt from the empty set. Take a configuration in
  which every expiry that is present parses, and in which the file of every entry whose
  expiry is absent (or empty) or strictly later than the clock reading taken for the
  entry loads to a list. Then the reload raises nothing, and the new whitelist holds
  exactly the lower-cased domains of those entries. What the whitelist held before does
  not occur in the result: an entry whose expiry has passed contributes nothing, even if
  its domains were there.
\<close>

theorem load_whitelist_rebuilt:
  assumes "\<forall>i<length whitelists.
             (\<forall>ex. expiry (snd (whitelists ! i)) = Some ex \<and> ex \<noteq> [] \<longrightarrow> strptime ex \<noteq> None)
             \<and> (expiry (snd (whitelists ! i)) = None
                 \<or> expiry (snd (whitelists ! i)) = Some []
                 \<or> (\<exists>ex t. expiry (snd (whitelists ! i)) = Some ex \<and> strptime ex = Some t
                           \<and> utcnow i < t)
                \<longrightarrow> (\<exists>ds. load_config (path (snd (whitelists ! i))) = Inr (ConfigList ds)))"
  shows "load_whitelist load_config strptime utcnow whitelists old_whitelist =
           (Inr (),
            {d. \<exists>i<length whitelists.
                  (expiry (snd (whitelists ! i)) = None
                   \<or> expiry (snd (whitelists ! i)) = Some []
                   \<or> (\<exists>ex t. expiry (snd (whitelists ! i)) = Some ex \<and> strptime ex = Some t
                             \<and> utcnow i < t))
                  \<and> (\<exists>ds. load_config (path (snd (whitelists ! i))) = Inr (ConfigList ds)
                           \<and> d \<in> lower ` set ds)})"
proof -
  have "\<forall>i<length whitelists.
             \<exists>b. reload_flag strptime (utcnow (0 + i)) (snd (whitelists ! i)) = Inr b \<and>
                 (b \<longrightarrow> (\<exists>ds. load_config (path (snd (whitelists ! i))) = Inr (ConfigList ds)))"
  proof (intro allI impI)
    fix i assume i: "i < length whitelists"
    let ?v = "snd (whitelists ! i)"
    from assms i have p: "\<forall>ex. expiry ?v = Some ex \<and> ex \<noteq> [] \<longrightarrow> strptime ex \<noteq> None"
      and l: "expiry ?v = None \<or> expiry ?v = Some []
                 \<or> (\<exists>ex t. expiry ?v = Some ex \<and> strptime ex = Some t \<and> utcnow i < t)
                \<longrightarrow> (\<exists>ds. load_config (path ?v) = Inr (ConfigList ds))"
      by blast+
    from reload_flag_parses [OF p] obtain b where
      b: "reload_flag strptime (utcnow i) ?v = Inr b" by blast
    have "b \<longrightarrow> (\<exists>ds. load_config (path ?v) = Inr (ConfigList ds))"
    proof
      assume b
      with b have "reload_flag strptime (utcnow i) ?v = Inr True" by simp
      then show "\<exists>ds. load_config (path ?v) = Inr (ConfigList ds)"
        using l by (simp add: reload_flag_True)
    qed
    with b show "\<exists>b. reload_flag strptime (utcnow (0 + i)) ?v = Inr b \<and>
                 (b \<longrightarrow> (\<exists>ds. load_config (path ?v) = Inr (ConfigList ds)))"
      by simp
  qed
  from load_whitelist_loop_ok [OF this, of "{}"] show ?thesis
    by (simp add: load_whitelist_def reload_flag_True)
qed


lemma lower_Example_COM: "lower ''Example.COM'' = ''example.com''"
  by code_simp

lemma lower_old_org: "lower ''old.org'' = ''old.org''"
  by code_simp

lemma lower_fresh_net: "lower ''Fresh.NET'' = ''fresh.net''"
  by code_simp

theorem load_whitelist_rebuilt_witness:
  "load_whitelist
     (\<lambda>p. if p = ''a.yml'' then Inr (ConfigList [''old.org''])
          else if p = ''b.yml'' then Inr (ConfigList [''Example.COM''])
          else Inr (ConfigList [''Fresh.NET'']))
     (\<lambda>s. if s = ''2016-01-01T00:00:00.000000Z'' then Some 101
          else if s = ''2099-01-01T00:00:00.000000Z'' then Some 900 else None)
     (\<lambda>n. 101)
     [(''a'', \<lparr>path = ''a.yml'', expiry = Some ''2016-01-01T00:00:00.000000Z''\<rparr>),
      (''b'', \<lparr>path = ''b.yml'', expiry = None\<rparr>),
      (''c'', \<lparr>path = ''c.yml'', expiry = Some ''2099-01-01T00:00:00.000000Z''\<rparr>)]
     {''old.org''}
   = (Inr (), {''example.com'', ''fresh.net''})"
proof -
  let ?lc = "\<lambda>p. if p = ''a.yml'' then Inr (ConfigList [''old.org''])
          else if p = ''b.yml'' then Inr (ConfigList [''Example.COM''])
          else Inr (ConfigList [''Fresh.NET''])"
  let ?sp = "\<lambda>s. if s = ''2016-01-01T00:00:00.000000Z'' then Some (101::int)
          else if s = ''2099-01-01T00:00:00.000000Z'' then Some 900 else None"
  let ?now = "\<lambda>n::nat. 101::int"
  let ?es = "[(''a'', \<lparr>path = ''a.yml'', expiry = Some ''2016-01-01T00:00:00.000000Z''\<rparr>),
      (''b'', \<lparr>path = ''b.yml'', expiry = None\<rparr>),
      (''c'', \<lparr>path = ''c.yml'', expiry = Some ''2099-01-01T00:00:00.000000Z''\<rparr>)]"
  have h: "\<forall>i<length ?es.
             (\<forall>ex. expiry (snd (?es ! i)) = Some ex \<and> ex \<noteq> [] \<longrightarrow> ?sp ex \<noteq> None)
             \<and> (expiry (snd (?es ! i)) = None
                 \<or> expiry (snd (?es ! i)) = Some []
                 \<or> (\<exists>ex t. expiry (snd (?es ! i)) = Some ex \<and> ?sp ex = Some t
                           \<and> ?now i < t)
                \<longrightarrow> (\<exists>ds. ?lc (path (snd (?es ! i))) = Inr (ConfigList ds)))"
    by (simp add: All_less_Suc)
  have s: "{d. \<exists>i<length ?es.
                  (expiry (snd (?es ! i)) = None
                   \<or> expiry (snd (?es ! i)) = Some []
                   \<or> (\<exists>ex t. expiry (snd (?es ! i)) = Some ex \<and> ?sp ex = Some t
                             \<and> ?now i < t))
                  \<and> (\<exists>ds. ?lc (path (snd (?es ! i))) = Inr (ConfigList ds)
                           \<and> d \<in> lower ` set ds)} = {''example.com'', ''fresh.net''}"
    by (simp add: Ex_less_Suc lower_Example_COM lower_old_org lower_fresh_net) blast
  from load_whitelist_rebuilt [OF h, of "{''old.org''}"] s show ?thesis by simp
qed


subsection \<open>Scratch storage of archive expansion\<close>

lemma is_archive_ok:
  assumes "mkstemp e files = Some sample_path" and "write_ok e data"
  shows "is_archive e data True files =
           (Inr (FlagAndPath (test_archive_ok e data) sample_path), insert sample_path files)"
    and "check_archive e data True files =
           (Inr (FlagAndPath (test_archive_ok e data) sample_path), insert sample_path files)"
  using assms by (simp_all add: is_archive_def check_archive_def)

lemma check_archive_cached_miss:
  assumes "archive_cache w (data, True) = None"
    and "mkstemp e (scratch w) = Some sample_path" and "write_ok e data"
  shows "check_archive_cached e data True w =
           (Inr (FlagAndPath (test_archive_ok e data) sample_path),
            w\<lparr>scratch := insert sample_path (scratch w),
              archive_cache := (archive_cache w)((data, True) \<mapsto>
                  FlagAndPath (test_archive_ok e data) sample_path)\<rparr>)"
  using assms by (simp add: check_archive_cached_def is_archive_ok)

lemma read_members_readable:
  "read_members (map (\<lambda>m. (fst m, Some (snd m))) members) = Inr members"
  by (induction members) auto

lemma read_members_unreadable:
  "(name, None) \<in> set listed \<Longrightarrow> read_members listed = Inl IOError"
  by (induction listed rule: read_members.induct) auto

lemma remove_path_ok:
  assumes "p \<in> scratch w" and "p \<notin> protected w"
  shows "remove_path p w = Inr (w\<lparr>scratch := scratch w - {p}\<rparr>)"
  using assms by (simp add: remove_path_def)

lemma remove_path_protected:
  assumes "p \<in> protected w"
  shows "remove_path p w = Inl OSError"
  using assms by (simp add: remove_path_def)

lemma remove_if_exists_ok:
  assumes "p \<in> scratch w" and "p \<notin> protected w"
  shows "remove_if_exists p w = Inr (w\<lparr>scratch := scratch w - {p}\<rparr>)"
  using assms by (simp add: remove_if_exists_def remove_path_def)

lemma remove_quietly_ok:
  assumes "p \<in> scratch w" and "p \<notin> protected w"
  shows "remove_quietly p w = w\<lparr>scratch := scratch w - {p}\<rparr>"
  using assms by (simp add: remove_quietly_def remove_path_def)

lemma remove_quietly_protected:
  assumes "p \<in> protected w"
  shows "remove_quietly p w = w"
  using assms by (simp add: remove_quietly_def remove_path_def)

lemma metadata_ok:
  assumes "i ''content_transfer_encoding'' = Some cte" and "i ''payload'' = Some (PStr p)"
    and "(if cte = PStr ''base64'' then b64decode t p else Some p) = Some data"
    and "i ''filename'' = Some (PStr filename)"
  shows "metadata t i = Inr (data, int (length data), extension filename)"
  using assms by (simp add: metadata_def)

lemma create_sample_result_not_archive:
  assumes "mkstemp e (scratch w) = Some sample_path" and "write_ok e data"
    and "\<not> test_archive_ok e data" and "sample_path \<notin> protected w"
  shows "\<exists>r. create_sample_result e t data filename mct te w =
           (Inr r, w\<lparr>scratch := insert sample_path (scratch w) - {sample_path}\<rparr>)"
  using assms
  by (simp add: create_sample_result_def is_archive_ok Let_def remove_if_exists_def
      remove_path_def)

lemma create_sample_result_extracted:
  assumes "mkstemp e (scratch w) = Some sample_path" and "write_ok e data"
    and "test_archive_ok e data"
    and "mkdtemp e (insert sample_path (scratch w)) = Some temp_dir"
    and "extract_result e data = Inr (map (\<lambda>m. (fst m, Some (snd m))) members)"
    and "sample_path \<notin> protected w" and "temp_dir \<notin> protected w"
    and "temp_dir \<noteq> sample_path"
  shows "\<exists>r. create_sample_result e t data filename mct te w =
           (Inr r, w\<lparr>scratch := insert temp_dir (insert sample_path (scratch w))
                                 - {temp_dir} - {sample_path}\<rparr>)"
  using assms
  by (simp add: create_sample_result_def is_archive_ok Let_def extract_archive_def
      read_members_readable remove_if_exists_def remove_path_def)

lemma create_sample_result_extract_error:
  assumes "mkstemp e (scratch w) = Some sample_path" and "write_ok e data"
    and "test_archive_ok e data"
    and "mkdtemp e (insert sample_path (scratch w)) = Some temp_dir"
    and "extract_result e data = Inl err"
  shows "create_sample_result e t data filename mct te w =
           (Inl err, w\<lparr>scratch := insert temp_dir (insert sample_path (scratch w))\<rparr>)"
  using assms
  by (simp add: create_sample_result_def is_archive_ok Let_def extract_archive_def)

lemma addmetadata_item_not_archive:
  assumes "\<not> is_filtered i" and "metadata t i = Inr (data, sz, ext)"
    and "archive_cache w (data, True) = None"
    and "mkstemp e (scratch w) = Some sample_path" and "write_ok e data"
    and "\<not> test_archive_ok e data" and "sample_path \<notin> protected w"
  shows "\<exists>r w'. addmetadata_item e t i w = (Inr r, w')
           \<and> scratch w' = insert sample_path (scratch w) - {sample_path}"
  using assms
  by (simp add: addmetadata_item_def check_archive_cached_miss Let_def remove_quietly_def
      remove_path_def)

lemma addmetadata_item_extracted:
  assumes "\<not> is_filtered i" and "metadata t i = Inr (data, sz, ext)"
    and "archive_cache w (data, True) = None"
    and "mkstemp e (scratch w) = Some sample_path" and "write_ok e data"
    and "test_archive_ok e data"
    and "mkdtemp e (insert sample_path (scratch w)) = Some temp_dir"
    and "extract_result e data = Inr (map (\<lambda>m. (fst m, Some (snd m))) members)"
    and "sample_path \<notin> protected w" and "temp_dir \<notin> protected w"
    and "temp_dir \<noteq> sample_path"
  shows "\<exists>r w'. addmetadata_item e t i w = (Inr r, w')
           \<and> scratch w' = insert temp_dir (insert sample_path (scratch w))
                             - {temp_dir} - {sample_path}"
  using assms
  by (simp add: addmetadata_item_def check_archive_cached_miss Let_def extract_archive_def
      read_members_readable remove_quietly_def remove_path_def)

lemma addmetadata_item_extract_error:
  assumes "\<not> is_filtered i" and "metadata t i = Inr (data, sz, ext)"
    and "archive_cache w (data, True) = None"
    and "mkstemp e (scratch w) = Some sample_path" and "write_ok e data"
    and "test_archive_ok e data"
    and "mkdtemp e (insert sample_path (scratch w)) = Some temp_dir"
    and "extract_result e data = Inl err"
  shows "\<exists>w'. addmetadata_item e t i w = (Inl err, w')
           \<and> scratch w' = insert temp_dir (insert sample_path (scratch w))"
  using assms
  by (simp add: addmetadata_item_def check_archive_cached_miss Let_def extract_archive_def)

text \<open>The exits the amended claim leaves aside: what the two functions do there.\<close>

lemma create_sample_result_unreadable_member:
  assumes "mkstemp e (scratch w) = Some sample_path" and "write_ok e data"
    and "test_archive_ok e data"
    and "mkdtemp e (insert sample_path (scratch w)) = Some temp_dir"
    and "extract_result e data = Inr listed" and "(name, None) \<in> set listed"
  shows "create_sample_result e t data filename mct te w =
           (Inl IOError, w\<lparr>scratch := insert temp_dir (insert sample_path (scratch w))\<rparr>)"
  using assms
  by (simp add: create_sample_result_def is_archive_ok Let_def extract_archive_def
      read_members_unreadable)

lemma create_sample_result_rmtree_fails:
  assumes "mkstemp e (scratch w) = Some sample_path" and "write_ok e data"
    and "test_archive_ok e data"
    and "mkdtemp e (insert sample_path (scratch w)) = Some temp_dir"
    and "extract_result e data = Inr (map (\<lambda>m. (fst m, Some (snd m))) members)"
    and "temp_dir \<in> protected w"
  shows "create_sample_result e t data filename mct te w =
           (Inl OSError, w\<lparr>scratch := insert temp_dir (insert sample_path (scratch w))\<rparr>)"
  using assms
  by (simp add: create_sample_result_def is_archive_ok Let_def extract_archive_def
      read_members_readable remove_if_exists_def remove_path_def)

lemma addmetadata_item_rmtree_fails:
  assumes "\<not> is_filtered i" and "metadata t i = Inr (data, sz, ext)"
    and "archive_cache w (data, True) = None"
    and "mkstemp e (scratch w) = Some sample_path" and "write_ok e data"
    and "test_archive_ok e data"
    and "mkdtemp e (insert sample_path (scratch w)) = Some temp_dir"
    and "extract_result e data = Inr (map (\<lambda>m. (fst m, Some (snd m))) members)"
    and "temp_dir \<in> protected w" and "temp_dir \<noteq> sample_path"
  shows "\<exists>r w'. addmetadata_item e t i w = (Inr r, w') \<and> temp_dir \<in> scratch w'"
  using assms
  by (simp add: addmetadata_item_def check_archive_cached_miss Let_def extract_archive_def
      read_members_readable remove_quietly_def remove_path_def)

lemma addmetadata_item_unreadable_member:
  assumes "\<not> is_filtered i" and "metadata t i = Inr (data, sz, ext)"
    and "archive_cache w (data, True) = None"
    and "mkstemp e (scratch w) = Some sample_path" and "write_ok e data"
    and "test_archive_ok e data"
    and "mkdtemp e (insert sample_path (scratch w)) = Some temp_dir"
    and "extract_result e data = Inr listed" and "(name, None) \<in> set listed"
  shows "\<exists>w'. addmetadata_item e t i w = (Inl IOError, w')
           \<and> scratch w' = insert temp_dir (insert sample_path (scratch w))"
  using assms
  by (simp add: addmetadata_item_def check_archive_cached_miss Let_def extract_archive_def
      read_members_unreadable)

text \<open>
  C3 (as amended). Take a sample whose scratch file can be created and written, with
  fresh scratch names, a scratch file and a scratch directory that can be removed, and,
  for \<open>_addmetadata\<close>, a record that is not filtered, whose payload decodes to the
  sample and is not yet in the memo table of \<open>check_archive\<close>. When the archive test
  says the data is not an archive, and when the archive is extracted and every extracted
  file can be read, \<open>_create_sample_result\<close> and the loop body of \<open>_addmetadata\<close>
  return with the scratch storage as it was before the call (the scratch file and the
  scratch directory are gone). When the extract operation raises, the error reaches the
  caller with both the scratch file and the scratch directory still there: nothing on
  that path removes them.
\<close>

theorem scratch_removed_unless_extract_fails:
  assumes "mkstemp e (scratch w) = Some sample_path" and "write_ok e data"
    and "mkdtemp e (insert sample_path (scratch w)) = Some temp_dir"
    and "sample_path \<notin> scratch w" and "temp_dir \<notin> insert sample_path (scratch w)"
    and "sample_path \<notin> protected w" and "temp_dir \<notin> protected w"
    and "\<not> is_filtered i"
    and "i ''content_transfer_encoding'' = Some cte" and "i ''payload'' = Some (PStr p)"
    and "(if cte = PStr ''base64'' then b64decode t p else Some p) = Some data"
    and "i ''filename'' = Some (PStr name)"
    and "archive_cache w (data, True) = None"
  shows "(\<not> test_archive_ok e data
          \<or> (\<exists>members. extract_result e data = Inr (map (\<lambda>m. (fst m, Some (snd m))) members)) \<longrightarrow>
            (\<exists>r w'. create_sample_result e t data filename mail_content_type transfer_encoding w
                       = (Inr r, w') \<and> scratch w' = scratch w)
          \<and> (\<exists>r w'. addmetadata_item e t i w = (Inr r, w') \<and> scratch w' = scratch w))
       \<and> (\<forall>err. test_archive_ok e data \<and> extract_result e data = Inl err \<longrightarrow>
            (\<exists>w'. create_sample_result e t data filename mail_content_type transfer_encoding w
                     = (Inl err, w')
                 \<and> scratch w' = insert temp_dir (insert sample_path (scratch w)))
          \<and> (\<exists>w'. addmetadata_item e t i w = (Inl err, w')
                 \<and> scratch w' = insert temp_dir (insert sample_path (scratch w))))"
proof (intro conjI allI impI)
  note md = metadata_ok [OF assms(9,10,11,12)]
  from assms(5) have ne: "temp_dir \<noteq> sample_path" and td: "temp_dir \<notin> scratch w" by auto
  assume a: "\<not> test_archive_ok e data
          \<or> (\<exists>members. extract_result e data = Inr (map (\<lambda>m. (fst m, Some (snd m))) members))"
  have clean1: "insert sample_path (scratch w) - {sample_path} = scratch w"
    using assms(4) by auto
  have clean2: "insert temp_dir (insert sample_path (scratch w)) - {temp_dir} - {sample_path}
                  = scratch w"
    using assms(4) td by auto
  show "\<exists>r w'. create_sample_result e t data filename mail_content_type transfer_encoding w
                       = (Inr r, w') \<and> scratch w' = scratch w"
  proof (cases "test_archive_ok e data")
    case False
    from create_sample_result_not_archive [OF assms(1,2) False assms(6)] obtain r where
      "create_sample_result e t data filename mail_content_type transfer_encoding w =
         (Inr r, w\<lparr>scratch := insert sample_path (scratch w) - {sample_path}\<rparr>)" by blast
    moreover have "scratch (w\<lparr>scratch := insert sample_path (scratch w) - {sample_path}\<rparr>)
                     = scratch w" using clean1 by simp
    ultimately show ?thesis by blast
  next
    case True
    with a obtain members where
      "extract_result e data = Inr (map (\<lambda>m. (fst m, Some (snd m))) members)" by blast
    from create_sample_result_extracted [OF assms(1,2) True assms(3) this assms(6,7) ne]
    obtain r where
      "create_sample_result e t data filename mail_content_type transfer_encoding w =
         (Inr r, w\<lparr>scratch := insert temp_dir (insert sample_path (scratch w))
                                 - {temp_dir} - {sample_path}\<rparr>)" by blast
    moreover have "scratch (w\<lparr>scratch := insert temp_dir (insert sample_path (scratch w))
                                 - {temp_dir} - {sample_path}\<rparr>) = scratch w"
      using clean2 by simp
    ultimately show ?thesis by blast
  qed
  show "\<exists>r w'. addmetadata_item e t i w = (Inr r, w') \<and> scratch w' = scratch w"
  proof (cases "test_archive_ok e data")
    case False
    from addmetadata_item_not_archive [OF assms(8) md assms(13) assms(1,2) False assms(6)] clean1
    show ?thesis by simp
  next
    case True
    with a obtain members where
      "extract_result e data = Inr (map (\<lambda>m. (fst m, Some (snd m))) members)" by blast
    from addmetadata_item_extracted
      [OF assms(8) md assms(13) assms(1,2) True assms(3) this assms(6,7) ne] clean2
    show ?thesis by simp
  qed
next
  note md = metadata_ok [OF assms(9,10,11,12)]
  fix err assume b: "test_archive_ok e data \<and> extract_result e data = Inl err"
  then have t: "test_archive_ok e data" and x: "extract_result e data = Inl err" by simp_all
  from create_sample_result_extract_error [OF assms(1,2) t assms(3) x]
  show "\<exists>w'. create_sample_result e t data filename mail_content_type transfer_encoding w
                     = (Inl err, w')
                 \<and> scratch w' = insert temp_dir (insert sample_path (scratch w))"
    by simp
  from addmetadata_item_extract_error [OF assms(8) md assms(13) assms(1,2) t assms(3) x]
  show "\<exists>w'. addmetadata_item e t i w = (Inl err, w')
                 \<and> scratch w' = insert temp_dir (insert sample_path (scratch w))"
    by simp
qed

theorem scratch_removed_unless_extract_fails_witness:
  "\<not> isl (fst (create_sample_result
       \<lparr>mkstemp = (\<lambda>files. Some ''/tmp/s''), mkdtemp = (\<lambda>files. Some ''/tmp/d''),
        write_ok = (\<lambda>data. True), test_archive_ok = (\<lambda>data. True),
        extract_result = (\<lambda>data. Inr [(''a.txt'', Some ''hello'')])\<rparr>
       \<lparr>b64encode = (\<lambda>x. x), b64decode = Some, magic = (\<lambda>x. ''text/plain''),
        fingerprints = (\<lambda>x. (''m'', ''s1'', ''s256'', ''s512'', ''ss'')),
        tika_extract = (\<lambda>x. Inr PNone), vt_report = (\<lambda>x. Inr PNone)\<rparr>
       ''ZIP'' ''a.zip'' PNone PNone
       \<lparr>scratch = {}, protected = {}, archive_cache = (\<lambda>k. None), calls = []\<rparr>))
   \<and> scratch (snd (create_sample_result
       \<lparr>mkstemp = (\<lambda>files. Some ''/tmp/s''), mkdtemp = (\<lambda>files. Some ''/tmp/d''),
        write_ok = (\<lambda>data. True), test_archive_ok = (\<lambda>data. True),
        extract_result = (\<lambda>data. Inr [(''a.txt'', Some ''hello'')])\<rparr>
       \<lparr>b64encode = (\<lambda>x. x), b64decode = Some, magic = (\<lambda>x. ''text/plain''),
        fingerprints = (\<lambda>x. (''m'', ''s1'', ''s256'', ''s512'', ''ss'')),
        tika_extract = (\<lambda>x. Inr PNone), vt_report = (\<lambda>x. Inr PNone)\<rparr>
       ''ZIP'' ''a.zip'' PNone PNone
       \<lparr>scratch = {}, protected = {}, archive_cache = (\<lambda>k. None), calls = []\<rparr>)) = {}
   \<and> \<not> isl (fst (addmetadata_item
       \<lparr>mkstemp = (\<lambda>files. Some ''/tmp/s''), mkdtemp = (\<lambda>files. Some ''/tmp/d''),
        write_ok = (\<lambda>data. True), test_archive_ok = (\<lambda>data. True),
        extract_result = (\<lambda>data. Inr [(''a.txt'', Some ''hello'')])\<rparr>
       \<lparr>b64encode = (\<lambda>x. x), b64decode = Some, magic = (\<lambda>x. ''text/plain''),
        fingerprints = (\<lambda>x. (''m'', ''s1'', ''s256'', ''s512'', ''ss'')),
        tika_extract = (\<lambda>x. Inr PNone), vt_report = (\<lambda>x. Inr PNone)\<rparr>
       [''content_transfer_encoding'' \<mapsto> PStr ''7bit'', ''payload'' \<mapsto> PStr ''ZIP'',
        ''filename'' \<mapsto> PStr ''a.zip'']
       \<lparr>scratch = {}, protected = {}, archive_cache = (\<lambda>k. None), calls = []\<rparr>))
   \<and> scratch (snd (addmetadata_item
       \<lparr>mkstemp = (\<lambda>files. Some ''/tmp/s''), mkdtemp = (\<lambda>files. Some ''/tmp/d''),
        write_ok = (\<lambda>data. True), test_archive_ok = (\<lambda>data. True),
        extract_result = (\<lambda>data. Inr [(''a.txt'', Some ''hello'')])\<rparr>
       \<lparr>b64encode = (\<lambda>x. x), b64decode = Some, magic = (\<lambda>x. ''text/plain''),
        fingerprints = (\<lambda>x. (''m'', ''s1'', ''s256'', ''s512'', ''ss'')),
        tika_extract = (\<lambda>x. Inr PNone), vt_report = (\<lambda>x. Inr PNone)\<rparr>
       [''content_transfer_encoding'' \<mapsto> PStr ''7bit'', ''payload'' \<mapsto> PStr ''ZIP'',
        ''filename'' \<mapsto> PStr ''a.zip'']
       \<lparr>scratch = {}, protected = {}, archive_cache = (\<lambda>k. None), calls = []\<rparr>)) = {}"
proof -
  let ?E = "\<lparr>mkstemp = (\<lambda>files. Some ''/tmp/s''), mkdtemp = (\<lambda>files. Some ''/tmp/d''),
        write_ok = (\<lambda>data. True), test_archive_ok = (\<lambda>data. True),
        extract_result = (\<lambda>data. Inr [(''a.txt'', Some ''hello'')])\<rparr>"
  let ?T = "\<lparr>b64encode = (\<lambda>x. x), b64decode = Some, magic = (\<lambda>x. ''text/plain''),
        fingerprints = (\<lambda>x. (''m'', ''s1'', ''s256'', ''s512'', ''ss'')),
        tika_extract = (\<lambda>x. Inr PNone), vt_report = (\<lambda>x. Inr PNone)\<rparr>"
  let ?W = "\<lparr>scratch = {}, protected = {}, archive_cache = (\<lambda>k. None), calls = []\<rparr>"
  let ?I = "[''content_transfer_encoding'' \<mapsto> PStr ''7bit'', ''payload'' \<mapsto> PStr ''ZIP'',
        ''filename'' \<mapsto> PStr ''a.zip'']"
  have h1: "mkstemp ?E (scratch ?W) = Some ''/tmp/s''" by simp
  have h2: "write_ok ?E ''ZIP''" by simp
  have h3: "mkdtemp ?E (insert ''/tmp/s'' (scratch ?W)) = Some ''/tmp/d''" by simp
  have h4: "''/tmp/s'' \<notin> scratch ?W" by simp
  have h5: "''/tmp/d'' \<notin> insert ''/tmp/s'' (scratch ?W)" by simp
  have h6: "''/tmp/s'' \<notin> protected ?W" by simp
  have h7: "''/tmp/d'' \<notin> protected ?W" by simp
  have h8: "\<not> is_filtered ?I" by (simp add: is_filtered_def dict_get_def)
  have h9: "?I ''content_transfer_encoding'' = Some (PStr ''7bit'')" by simp
  have h10: "?I ''payload'' = Some (PStr ''ZIP'')" by simp
  have h11: "(if PStr ''7bit'' = PStr ''base64'' then b64decode ?T ''ZIP'' else Some ''ZIP'')
               = Some ''ZIP''" by simp
  have h12: "?I ''filename'' = Some (PStr ''a.zip'')" by simp
  have h13: "archive_cache ?W (''ZIP'', True) = None" by simp
  have "extract_result ?E ''ZIP'' = Inr (map (\<lambda>m. (fst m, Some (snd m))) [(''a.txt'', ''hello'')])"
    by simp
  then have x: "\<not> test_archive_ok ?E ''ZIP''
          \<or> (\<exists>members. extract_result ?E ''ZIP'' = Inr (map (\<lambda>m. (fst m, Some (snd m))) members))"
    by blast
  note th = scratch_removed_unless_extract_fails
    [OF h1 h2 h3 h4 h5 h6 h7 h8 h9 h10 h11 h12 h13, of "''a.zip''" PNone PNone]
  from th [THEN conjunct1, THEN mp, OF x]
  have c: "\<exists>r w'. create_sample_result ?E ?T ''ZIP'' ''a.zip'' PNone PNone ?W = (Inr r, w')
              \<and> scratch w' = scratch ?W"
    and a: "\<exists>r w'. addmetadata_item ?E ?T ?I ?W = (Inr r, w') \<and> scratch w' = scratch ?W"
    by (rule conjunct1, rule conjunct2)
  from c obtain r w' where
    c1: "create_sample_result ?E ?T ''ZIP'' ''a.zip'' PNone PNone ?W = (Inr r, w')"
    and c2: "scratch w' = scratch ?W" by (elim exE conjE)
  from a obtain r2 w2 where
    a1: "addmetadata_item ?E ?T ?I ?W = (Inr r2, w2)" and a2: "scratch w2 = scratch ?W"
    by (elim exE conjE)
  have "scratch ?W = {}" by simp
  with c1 c2 a1 a2
  show ?thesis by (simp only: fst_conv snd_conv sum.disc simp_thms)
qed

text \<open>
  C3 (as stated) fails: with an archive tool whose test accepts the data and whose
  extract operation raises, both functions pass the error on and leave the scratch file
  \<open>/tmp/s\<close> and the scratch directory \<open>/tmp/d\<close> behind.
\<close>

theorem extract_failure_leaves_scratch_counterexample:
  "create_sample_result
       \<lparr>mkstemp = (\<lambda>files. Some ''/tmp/s''), mkdtemp = (\<lambda>files. Some ''/tmp/d''),
        write_ok = (\<lambda>data. True), test_archive_ok = (\<lambda>data. True),
        extract_result = (\<lambda>data. Inl PatoolError)\<rparr>
       \<lparr>b64encode = (\<lambda>x. x), b64decode = Some, magic = (\<lambda>x. ''text/plain''),
        fingerprints = (\<lambda>x. (''m'', ''s1'', ''s256'', ''s512'', ''ss'')),
        tika_extract = (\<lambda>x. Inr PNone), vt_report = (\<lambda>x. Inr PNone)\<rparr>
       ''ZIP'' ''a.zip'' PNone PNone
       \<lparr>scratch = {}, protected = {}, archive_cache = (\<lambda>k. None), calls = []\<rparr>
     = (Inl PatoolError,
        \<lparr>scratch = {''/tmp/d'', ''/tmp/s''}, protected = {}, archive_cache = (\<lambda>k. None),
         calls = []\<rparr>)
   \<and> fst (addmetadata_item
       \<lparr>mkstemp = (\<lambda>files. Some ''/tmp/s''), mkdtemp = (\<lambda>files. Some ''/tmp/d''),
        write_ok = (\<lambda>data. True), test_archive_ok = (\<lambda>data. True),
        extract_result = (\<lambda>data. Inl PatoolError)\<rparr>
       \<lparr>b64encode = (\<lambda>x. x), b64decode = Some, magic = (\<lambda>x. ''text/plain''),
        fingerprints = (\<lambda>x. (''m'', ''s1'', ''s256'', ''s512'', ''ss'')),
        tika_extract = (\<lambda>x. Inr PNone), vt_report = (\<lambda>x. Inr PNone)\<rparr>
       [''content_transfer_encoding'' \<mapsto> PStr ''7bit'', ''payload'' \<mapsto> PStr ''ZIP'',
        ''filename'' \<mapsto> PStr ''a.zip'']
       \<lparr>scratch = {}, protected = {}, archive_cache = (\<lambda>k. None), calls = []\<rparr>) = Inl PatoolError
   \<and> scratch (snd (addmetadata_item
       \<lparr>mkstemp = (\<lambda>files. Some ''/tmp/s''), mkdtemp = (\<lambda>files. Some ''/tmp/d''),
        write_ok = (\<lambda>data. True), test_archive_ok = (\<lambda>data. True),
        extract_result = (\<lambda>data. Inl PatoolError)\<rparr>
       \<lparr>b64encode = (\<lambda>x. x), b64decode = Some, magic = (\<lambda>x. ''text/plain''),
        fingerprints = (\<lambda>x. (''m'', ''s1'', ''s256'', ''s512'', ''ss'')),
        tika_extract = (\<lambda>x. Inr PNone), vt_report = (\<lambda>x. Inr PNone)\<rparr>
       [''content_transfer_encoding'' \<mapsto> PStr ''7bit'', ''payload'' \<mapsto> PStr ''ZIP'',
        ''filename'' \<mapsto> PStr ''a.zip'']
       \<lparr>scratch = {}, protected = {}, archive_cache = (\<lambda>k. None), calls = []\<rparr>)) = {''/tmp/d'', ''/tmp/s''}"
  by (simp add: create_sample_result_def is_archive_def addmetadata_item_def
      check_archive_cached_def check_archive_def extract_archive_def metadata_def
      is_filtered_def dict_get_def Let_def)

subsection \<open>parse_sample and the blacklist\<close>

lemma for_each_ok:
  "\<forall>x\<in>set xs. \<not> isl (f x) \<Longrightarrow> for_each f xs = Inr (map (\<lambda>x. projr (f x)) xs)"
proof (induction xs)
  case Nil
  then show ?case by simp
next
  case (Cons x xs)
  then obtain y where "f x = Inr y" by (cases "f x") auto
  with Cons show ?case by simp
qed



text \<open>A dict whose payload is the encoding of \<open>x\<close>.\<close>

lemma decode_payload_encoded:
  assumes "\<forall>x. b64decode t (b64encode t x) = Some x"
    and "d ''payload'' = Some (PStr (b64encode t x))"
  shows "decode_payload t d = Inr x"
  using assms by (simp add: decode_payload_def)


lemma set_fingerprints_encoded:
  assumes "\<forall>x. b64decode t (b64encode t x) = Some x"
    and "d ''payload'' = Some (PStr (b64encode t x))"
  shows "\<exists>d'. set_fingerprints t d = Inr d'
           \<and> d' ''filename'' = d ''filename'' \<and> d' ''payload'' = d ''payload''
           \<and> d' ''Content-Type'' = d ''Content-Type'' \<and> d' ''is_archive'' = d ''is_archive''
           \<and> d' ''files'' = d ''files''
           \<and> (\<exists>s. d' ''sha1'' = Some (PStr s))"
  using assms
  by (cases "fingerprints t x")
    (simp add: set_fingerprints_def decode_payload_encoded [where x = x])




























end
